theory Spec2Isabelle
  imports Main
begin

section \<open>Values, paths, results\<close>

text \<open>
  The values handed to a validator are untyped JavaScript values. Only the distinction
  between arrays, \<open>undefined\<close> and everything else matters to the two combinators.
\<close>

datatype jsval =
    JUndefined
  | JNull
  | JBool bool
  | JNum int
  | JStr string
  | JArr "jsval list"
  | JObj "(string \<times> jsval) list"

text \<open>
  Modelled from the spec: \<open>path-utils\<close> (\<open>appendPathIndex\<close>, \<open>atPath\<close>) is not among the
  sources. The spec describes a path as a location built by appending \<open>.field\<close> or
  \<open>[index]\<close> segments; the model keeps the segments instead of their rendering.
\<close>

datatype path_segment = Index nat | Field string

type_synonym path = "path_segment list"

definition appendPathIndex :: "path \<Rightarrow> nat \<Rightarrow> path" where
  "appendPathIndex p index = p @ [Index index]"

text \<open>
  An \<open>InternalValidationResult\<close> is either \<open>noError\<close> or an object with a lazily built
  message. The model keeps what the message is built from: the kind of error and its
  operands. \<open>None\<close> is \<open>noError\<close>.
  \<^item> \<open>ExpectedArray v p\<close>: \<open>Expected array, found <typeof v><at p>\<close>
  \<^item> \<open>TooShort m n p\<close>: \<open>Expected an array with at least m element(s), found an array with n element(s)<at p>\<close>
  \<^item> \<open>TooLong m n p\<close>: \<open>Expected an array with at most m element(s), found an array with n element(s)<at p>\<close>
  \<^item> \<open>LeafError msg p\<close>: the message of a leaf schema, at \<open>p\<close>
\<close>

datatype verror =
    ExpectedArray jsval path
  | TooShort nat nat path
  | TooLong nat nat path
  | LeafError string path

datatype validation_mode = Hard | Soft | NoValidation

section \<open>Process state and validation options\<close>

text \<open>
  What a validation can observe or change besides its result:
  \<^item> \<open>ShouldYieldAsked b\<close>: \<open>validatorOptions.shouldYield()\<close> was called and answered \<open>b\<close>;
  \<^item> \<open>Yielded\<close>: \<open>await validatorOptions.yield()\<close>;
  \<^item> \<open>ItemValidated a p\<close>: an array handed the element at \<open>p\<close> to its item schema, to
    \<open>internalValidateAsync\<close> when \<open>a\<close> holds and to \<open>internalValidate\<close> otherwise;
  \<^item> \<open>Warned name msg\<close>: the upgraded schema \<open>name\<close> handed \<open>msg\<close> to
    \<open>getLogger().warn?.\<close> (a logger without \<open>warn\<close> drops it).
\<close>

datatype event =
    ShouldYieldAsked bool
  | Yielded
  | ItemValidated bool path
  | Warned string string

text \<open>
  The state of the process: the configuration store read by
  \<open>getAsyncTimeComplexityThreshold()\<close>, the module-level set
  \<open>alreadyLogUpgradedWarnings\<close>, and the history of events. One task is modelled: no other
  task runs while a validation is suspended in \<open>yield\<close>.
\<close>

record vstate =
  asyncTimeComplexityThreshold :: nat
  alreadyLogUpgradedWarnings :: "string set"
  trace :: "event list"

text \<open>
  \<open>InternalValidationOptions\<close>: the mode, and the caller's \<open>shouldYield\<close>, whose answer may
  depend on everything that happened so far. \<open>yield\<close> has no parameter of its own: it is
  the event \<open>Yielded\<close>.
\<close>

record validation_options =
  validation :: validation_mode
  shouldYield :: "event list \<Rightarrow> bool"

definition addEvent :: "event \<Rightarrow> vstate \<Rightarrow> vstate" where
  "addEvent e s = s\<lparr>trace := trace s @ [e]\<rparr>"

section \<open>Schemas\<close>

text \<open>
  A schema object as the engine uses it: its cost, whether it needs custom
  serialization, and the two hidden validators of \<open>InternalSchemaFunctions\<close>.
  \<open>makeInternalSchema\<close> is not among the sources; the model takes the object it returns to
  carry the two validators it is given, unchanged. Costs, lengths, bounds and the threshold
  are natural numbers.
\<close>

type_synonym validator =
  "jsval \<Rightarrow> validation_options \<Rightarrow> path \<Rightarrow> vstate \<Rightarrow> verror option \<times> vstate"

record schema =
  estimatedValidationTimeComplexity :: nat
  usesCustomSerDes :: bool
  internalValidate :: validator
  internalValidateAsync :: validator

text \<open>
  Modelled from the spec: the leaf schemas (string, number, ...) are not among the sources.
  A leaf has a small constant cost, never suspends (section 4.5), and reports either no
  error or a message at the path it was given. Its check is a parameter.
\<close>

definition leafValidate :: "(validation_mode \<Rightarrow> jsval \<Rightarrow> string option) \<Rightarrow> validator" where
  "leafValidate check v vo p s =
     (case check (validation vo) v of
        None \<Rightarrow> (None, s)
      | Some msg \<Rightarrow> (Some (LeafError msg p), s))"

definition leaf :: "nat \<Rightarrow> bool \<Rightarrow> (validation_mode \<Rightarrow> jsval \<Rightarrow> string option) \<Rightarrow> schema" where
  "leaf cost serDes check =
     \<lparr> estimatedValidationTimeComplexity = cost,
       usesCustomSerDes = serDes,
       internalValidate = leafValidate check,
       internalValidateAsync = leafValidate check \<rparr>"

text \<open>
  The validator an asynchronous path takes for a child, written in both combinators as
  \<open>child.estimatedValidationTimeComplexity > asyncTimeComplexityThreshold ?
  child.internalValidateAsync : child.internalValidate\<close>.
\<close>

definition pickValidator :: "nat \<Rightarrow> schema \<Rightarrow> validator" where
  "pickValidator threshold child =
     (if threshold < estimatedValidationTimeComplexity child
      then internalValidateAsync child else internalValidate child)"

section \<open>The array schema\<close>

definition ESTIMATED_AVG_ARRAY_LENGTH :: nat where
  "ESTIMATED_AVG_ARRAY_LENGTH = 100"

text \<open>The options of \<open>array\<close>, and the argument object of the two helpers, which extends them.\<close>

record array_options =
  items :: "schema option"
  minLength :: "nat option"
  maxLength :: "nat option"
  maxEntriesToValidate :: "nat option"

record validate_array_args = array_options +
  needsDeepSerDes :: bool
  path :: path
  validatorOptions :: validation_options

definition shouldStopOnFirstError :: "validate_array_args \<Rightarrow> bool" where
  "shouldStopOnFirstError args \<longleftrightarrow>
     validation (validatorOptions args) = Hard \<or> \<not> needsDeepSerDes args"

text \<open>
  The two length tests, written twice in the source (once in each helper) with the same
  text. \<open>Inl e\<close>: the helper returns \<open>e\<close> at once; \<open>Inr r\<close>: it goes on with
  \<open>errorResult = r\<close>. \<open>minLength\<close> defaults to 0. The second test is guarded by
  \<open>errorResult === undefined\<close>, so it is skipped once the first has fired.
\<close>

definition checkBounds :: "validate_array_args \<Rightarrow> nat \<Rightarrow> verror + verror option" where
  "checkBounds args len =
     (let minLen = (case minLength args of None \<Rightarrow> 0 | Some m \<Rightarrow> m) in
      if len < minLen then
        (if shouldStopOnFirstError args then Inl (TooShort minLen len (path args))
         else Inr (Some (TooShort minLen len (path args))))
      else
        (case maxLength args of
           None \<Rightarrow> Inr None
         | Some maxLen \<Rightarrow>
             if maxLen < len then
               (if shouldStopOnFirstError args then Inl (TooLong maxLen len (path args))
                else Inr (Some (TooLong maxLen len (path args))))
             else Inr None))"

text \<open>\<open>!needsDeepSerDes && maxEntriesToValidate !== undefined && index >= maxEntriesToValidate\<close>\<close>

definition reachedMaxEntries :: "validate_array_args \<Rightarrow> nat \<Rightarrow> bool" where
  "reachedMaxEntries args index \<longleftrightarrow>
     \<not> needsDeepSerDes args \<and>
     (case maxEntriesToValidate args of None \<Rightarrow> False | Some k \<Rightarrow> k \<le> index)"

subsection \<open>Synchronous\<close>

text \<open>
  The \<open>for (const arrayItem of value)\<close> loop of \<open>validateArray\<close>, with its \<open>index\<close> counter
  and the \<open>errorResult\<close> slot.
\<close>

fun validateItems ::
  "schema \<Rightarrow> validate_array_args \<Rightarrow> jsval list \<Rightarrow> nat \<Rightarrow> verror option \<Rightarrow> vstate
     \<Rightarrow> verror option \<times> vstate" where
  "validateItems it args [] index errorResult s = (errorResult, s)"
| "validateItems it args (arrayItem # rest) index errorResult s =
     (if reachedMaxEntries args index then (errorResult, s)
      else
        let p = appendPathIndex (path args) index;
            (result, s') = internalValidate it arrayItem (validatorOptions args) p
                             (addEvent (ItemValidated False p) s)
        in if errorResult = None \<and> result \<noteq> None then
             (if shouldStopOnFirstError args then (result, s')
              else validateItems it args rest (index + 1) result s')
           else validateItems it args rest (index + 1) errorResult s')"

definition validateArray :: "jsval \<Rightarrow> validate_array_args \<Rightarrow> vstate \<Rightarrow> verror option \<times> vstate" where
  "validateArray v args s =
     (case v of
        JArr xs \<Rightarrow>
          if \<not> needsDeepSerDes args \<and> validation (validatorOptions args) = NoValidation
          then (None, s)
          else
            (case checkBounds args (length xs) of
               Inl e \<Rightarrow> (Some e, s)
             | Inr errorResult \<Rightarrow>
                 (case items args of
                    None \<Rightarrow> (errorResult, s)
                  | Some it \<Rightarrow> validateItems it args xs 0 errorResult s))
      | _ \<Rightarrow> (Some (ExpectedArray v (path args)), s))"

subsection \<open>Asynchronous\<close>

text \<open>
  \<open>Math.max(1, Math.floor(threshold / cost))\<close> on JavaScript numbers: a zero cost makes
  the quotient \<open>Infinity\<close>, or \<open>NaN\<close> when the threshold is zero as well, and
  \<open>Math.max\<close> keeps both.
\<close>

datatype js_number = Finite nat | Infinity | NaN

definition chunkSize :: "nat \<Rightarrow> nat \<Rightarrow> js_number" where
  "chunkSize threshold cost =
     (if cost = 0 then (if threshold = 0 then NaN else Infinity)
      else Finite (max 1 (threshold div cost)))"

text \<open>\<open>index < chunkStartIndex + chunkSize\<close>: comparisons with \<open>NaN\<close> are false.\<close>

definition withinChunk :: "js_number \<Rightarrow> nat \<Rightarrow> nat \<Rightarrow> bool" where
  "withinChunk chunk chunkStartIndex index =
     (case chunk of
        Finite k \<Rightarrow> index < chunkStartIndex + k
      | Infinity \<Rightarrow> True
      | NaN \<Rightarrow> False)"

text \<open>What \<open>processChunk\<close> returns: \<open>undefined\<close>, \<open>false\<close>, or the error result.\<close>

datatype chunk_result = ChunkUndefined | ChunkFalse | ChunkError

text \<open>The \<open>for\<close> loop of \<open>processChunk\<close>.\<close>

function chunkItems ::
  "schema \<Rightarrow> validate_array_args \<Rightarrow> nat \<Rightarrow> jsval list \<Rightarrow> nat \<Rightarrow> nat \<Rightarrow> verror option \<Rightarrow> vstate
     \<Rightarrow> chunk_result \<times> verror option \<times> vstate" where
  "chunkItems it args threshold xs chunkStartIndex index errorResult s =
     (if index < length xs \<and>
         withinChunk (chunkSize threshold (estimatedValidationTimeComplexity it))
           chunkStartIndex index
      then
        if reachedMaxEntries args index then (ChunkFalse, errorResult, s)
        else
          let p = appendPathIndex (path args) index;
              (result, s') =
                 pickValidator threshold it (xs ! index) (validatorOptions args) p
                   (addEvent (ItemValidated (threshold < estimatedValidationTimeComplexity it) p) s)
          in if errorResult = None \<and> result \<noteq> None then
               (if shouldStopOnFirstError args then (ChunkError, result, s')
                else chunkItems it args threshold xs chunkStartIndex (index + 1) result s')
             else chunkItems it args threshold xs chunkStartIndex (index + 1) errorResult s'
      else (ChunkUndefined, errorResult, s))"
  by pat_completeness auto
termination
  by (relation "measure (\<lambda>(it, args, threshold, xs, chunkStartIndex, index, errorResult, s).
        length xs - index)") auto

definition consultShouldYield :: "validation_options \<Rightarrow> vstate \<Rightarrow> vstate" where
  "consultShouldYield vo s =
     (let b = shouldYield vo (trace s);
          s1 = addEvent (ShouldYieldAsked b) s
      in if b then addEvent Yielded s1 else s1)"

definition processChunk ::
  "schema \<Rightarrow> validate_array_args \<Rightarrow> nat \<Rightarrow> jsval list \<Rightarrow> nat \<Rightarrow> verror option \<Rightarrow> vstate
     \<Rightarrow> chunk_result \<times> verror option \<times> vstate" where
  "processChunk it args threshold xs chunkStartIndex errorResult s =
     chunkItems it args threshold xs chunkStartIndex chunkStartIndex errorResult
       (consultShouldYield (validatorOptions args) s)"

text \<open>
  The loop over the chunks. Its body is
  \<open>if (chunkRes === false) break; else if (chunkRes !== undefined) { chunkRes; }\<close>:
  only \<open>false\<close> leaves the loop, an error result does not. Adding \<open>Infinity\<close> or \<open>NaN\<close>
  to \<open>chunkStartIndex\<close> ends the loop at the next test.
\<close>

function asyncChunks ::
  "schema \<Rightarrow> validate_array_args \<Rightarrow> nat \<Rightarrow> jsval list \<Rightarrow> nat \<Rightarrow> verror option \<Rightarrow> vstate
     \<Rightarrow> verror option \<times> vstate" where
  "asyncChunks it args threshold xs chunkStartIndex errorResult s =
     (if chunkStartIndex < length xs then
        let (chunkRes, errorResult', s') =
              processChunk it args threshold xs chunkStartIndex errorResult s
        in if chunkRes = ChunkFalse then (errorResult', s')
           else
             (case chunkSize threshold (estimatedValidationTimeComplexity it) of
                Finite k \<Rightarrow> asyncChunks it args threshold xs (chunkStartIndex + k) errorResult' s'
              | Infinity \<Rightarrow> (errorResult', s')
              | NaN \<Rightarrow> (errorResult', s'))
      else (errorResult, s))"
  by pat_completeness auto
termination
  by (relation "measure (\<lambda>(it, args, threshold, xs, chunkStartIndex, errorResult, s).
        length xs - chunkStartIndex)")
     (auto simp: chunkSize_def split: if_splits)

definition asyncValidateArray ::
  "jsval \<Rightarrow> validate_array_args \<Rightarrow> vstate \<Rightarrow> verror option \<times> vstate" where
  "asyncValidateArray v args s =
     (case v of
        JArr xs \<Rightarrow>
          if \<not> needsDeepSerDes args \<and> validation (validatorOptions args) = NoValidation
          then (None, s)
          else
            (case (if validation (validatorOptions args) \<noteq> NoValidation
                   then checkBounds args (length xs) else Inr None) of
               Inl e \<Rightarrow> (Some e, s)
             | Inr errorResult \<Rightarrow>
                 (case items args of
                    None \<Rightarrow> (errorResult, s)
                  | Some it \<Rightarrow>
                      asyncChunks it args (asyncTimeComplexityThreshold s) xs 0 errorResult s))
      | _ \<Rightarrow> (Some (ExpectedArray v (path args)), s))"

subsection \<open>The factory\<close>

definition arrayArgs ::
  "array_options \<Rightarrow> bool \<Rightarrow> path \<Rightarrow> validation_options \<Rightarrow> validate_array_args" where
  "arrayArgs options deep p vo =
     \<lparr> items = items options, minLength = minLength options, maxLength = maxLength options,
       maxEntriesToValidate = maxEntriesToValidate options,
       needsDeepSerDes = deep, path = p, validatorOptions = vo \<rparr>"

definition array :: "array_options \<Rightarrow> schema" where
  "array options =
     (let deep = (case items options of None \<Rightarrow> False | Some it \<Rightarrow> usesCustomSerDes it) in
      \<lparr> estimatedValidationTimeComplexity =
          (case items options of None \<Rightarrow> 1 | Some it \<Rightarrow> estimatedValidationTimeComplexity it) *
          (case (if deep then maxLength options else maxEntriesToValidate options) of
             None \<Rightarrow> ESTIMATED_AVG_ARRAY_LENGTH
           | Some n \<Rightarrow> n),
        usesCustomSerDes = deep,
        internalValidate = (\<lambda>v vo p. validateArray v (arrayArgs options deep p vo)),
        internalValidateAsync = (\<lambda>v vo p. asyncValidateArray v (arrayArgs options deep p vo)) \<rparr>)"

section \<open>The upgraded schema\<close>

text \<open>The template string of the warning; an empty \<open>deadline\<close> is falsy.\<close>

definition deprecationMessage :: "string \<Rightarrow> string option \<Rightarrow> string" where
  "deprecationMessage uniqueName deadline =
     ''[DEPRECATION] The schema for '' @ uniqueName @
     '' has been upgraded and legacy support will be removed '' @
     (case deadline of
        None \<Rightarrow> ''soon''
      | Some d \<Rightarrow> if d = [] then ''soon'' else ''after '' @ d) @ ''.''"

text \<open>
  \<open>if (value !== undefined && !alreadyLogUpgradedWarnings.has(uniqueName)) { add; warn }\<close>
\<close>

definition warnOnce :: "string \<Rightarrow> string option \<Rightarrow> jsval \<Rightarrow> vstate \<Rightarrow> vstate" where
  "warnOnce uniqueName deadline v s =
     (if v \<noteq> JUndefined \<and> uniqueName \<notin> alreadyLogUpgradedWarnings s then
        addEvent (Warned uniqueName (deprecationMessage uniqueName deadline))
          (s\<lparr>alreadyLogUpgradedWarnings := insert uniqueName (alreadyLogUpgradedWarnings s)\<rparr>)
      else s)"

definition upgradedValidate :: "string \<Rightarrow> schema \<Rightarrow> schema \<Rightarrow> string option \<Rightarrow> validator" where
  "upgradedValidate uniqueName old new deadline v vo p s =
     (let (newResult, s1) = internalValidate new v vo p s in
      if newResult = None then (None, s1)
      else
        let (oldResult, s2) = internalValidate old v vo p s1 in
        if oldResult = None then (None, warnOnce uniqueName deadline v s2)
        else (oldResult, s2))"

definition upgradedValidateAsync :: "string \<Rightarrow> schema \<Rightarrow> schema \<Rightarrow> string option \<Rightarrow> validator" where
  "upgradedValidateAsync uniqueName old new deadline v vo p s =
     (let threshold = asyncTimeComplexityThreshold s;
          (newResult, s1) = pickValidator threshold new v vo p s in
      if newResult = None then (None, s1)
      else
        let (oldResult, s2) = pickValidator threshold old v vo p s1 in
        if oldResult = None then (None, warnOnce uniqueName deadline v s2)
        else (oldResult, s2))"

definition upgraded :: "string \<Rightarrow> schema \<Rightarrow> schema \<Rightarrow> string option \<Rightarrow> schema" where
  "upgraded uniqueName old new deadline =
     \<lparr> estimatedValidationTimeComplexity =
          estimatedValidationTimeComplexity old + estimatedValidationTimeComplexity new,
       usesCustomSerDes = (usesCustomSerDes old \<or> usesCustomSerDes new),
       internalValidate = upgradedValidate uniqueName old new deadline,
       internalValidateAsync = upgradedValidateAsync uniqueName old new deadline \<rparr>"

section \<open>Notions used to state the properties\<close>

subsection \<open>States, bounds, acceptance\<close>

text \<open>The state of a process that has validated nothing yet.\<close>

definition fresh :: "nat \<Rightarrow> vstate" where
  "fresh threshold =
     \<lparr> asyncTimeComplexityThreshold = threshold, alreadyLogUpgradedWarnings = {}, trace = [] \<rparr>"

text \<open>
  \<open>minLength\<close> with its default; a length that violates neither \<open>minLength\<close> nor
  \<open>maxLength\<close>; the options without their length bounds; and \<open>needsDeepSerDes\<close> as the
  factory computes it.
\<close>

definition minLengthOf :: "'a array_options_scheme \<Rightarrow> nat" where
  "minLengthOf options = (case minLength options of None \<Rightarrow> 0 | Some m \<Rightarrow> m)"

definition withinBounds :: "'a array_options_scheme \<Rightarrow> nat \<Rightarrow> bool" where
  "withinBounds options len \<longleftrightarrow>
     (case minLength options of None \<Rightarrow> 0 | Some m \<Rightarrow> m) \<le> len \<and>
     (case maxLength options of None \<Rightarrow> True | Some m \<Rightarrow> len \<le> m)"

definition withoutBounds :: "array_options \<Rightarrow> array_options" where
  "withoutBounds options = options\<lparr>minLength := None, maxLength := None\<rparr>"

definition deepOf :: "array_options \<Rightarrow> bool" where
  "deepOf options = (case items options of None \<Rightarrow> False | Some it \<Rightarrow> usesCustomSerDes it)"

text \<open>
  An element is accepted (rejected) by a schema when both of its validators report no
  error (an error) on it, wherever it stands and whatever happened before.
\<close>

definition accepts :: "schema \<Rightarrow> validation_options \<Rightarrow> jsval \<Rightarrow> bool" where
  "accepts sc vo v \<longleftrightarrow>
     (\<forall>p s. fst (internalValidate sc v vo p s) = None \<and>
            fst (internalValidateAsync sc v vo p s) = None)"

definition rejects :: "schema \<Rightarrow> validation_options \<Rightarrow> jsval \<Rightarrow> bool" where
  "rejects sc vo v \<longleftrightarrow>
     (\<forall>p s. fst (internalValidate sc v vo p s) \<noteq> None \<and>
            fst (internalValidateAsync sc v vo p s) \<noteq> None)"

subsection \<open>The cost of an array, in the words of the specification\<close>

text \<open>
  The array skips serialization work when it has no item schema or its item schema needs
  no custom serialization. The representative length is \<open>maxEntriesToValidate\<close> in that
  case and \<open>maxLength\<close> otherwise, and 100 when the one that applies is not given.
\<close>

definition skipsSerialization :: "array_options \<Rightarrow> bool" where
  "skipsSerialization options =
     (case items options of None \<Rightarrow> True | Some it \<Rightarrow> \<not> usesCustomSerDes it)"

definition representativeLength :: "array_options \<Rightarrow> nat" where
  "representativeLength options =
     (if skipsSerialization options
      then (case maxEntriesToValidate options of Some k \<Rightarrow> k | None \<Rightarrow> 100)
      else (case maxLength options of Some m \<Rightarrow> m | None \<Rightarrow> 100))"

subsection \<open>Schemas built from the three kinds, and their valid values\<close>

text \<open>
  The schemas a caller can build from leaves, \<open>array\<close> and \<open>upgraded\<close>, as expressions,
  and the schema object each expression denotes.
\<close>

datatype schema_expr =
    LeafE nat bool "validation_mode \<Rightarrow> jsval \<Rightarrow> string option"
  | ArrayE "schema_expr option" "nat option" "nat option" "nat option"
  | UpgradedE string schema_expr schema_expr "string option"

fun build :: "schema_expr \<Rightarrow> schema" where
  "build (LeafE cost serDes check) = leaf cost serDes check"
| "build (ArrayE its minL maxL maxE) =
     array \<lparr>items = map_option build its, minLength = minL, maxLength = maxL,
            maxEntriesToValidate = maxE\<rparr>"
| "build (UpgradedE uniqueName old new deadline) =
     upgraded uniqueName (build old) (build new) deadline"

text \<open>
  A value that is valid for a schema, in the words of the specification: a leaf accepts
  it; an array is an array within the length bounds whose entries are valid, the first
  \<open>maxEntriesToValidate\<close> only when the items need no custom serialization (the others
  are implicitly accepted); an upgraded schema takes what its new or its old schema takes.
\<close>

definition entriesToValidate :: "schema_expr \<Rightarrow> nat option \<Rightarrow> jsval list \<Rightarrow> jsval list" where
  "entriesToValidate it maxE xs =
     (if usesCustomSerDes (build it) then xs
      else (case maxE of None \<Rightarrow> xs | Some k \<Rightarrow> take k xs))"

fun valid_per :: "validation_mode \<Rightarrow> schema_expr \<Rightarrow> jsval \<Rightarrow> bool" where
  "valid_per mode (LeafE cost serDes check) v = (check mode v = None)"
| "valid_per mode (ArrayE its minL maxL maxE) v =
     (case v of
        JArr xs \<Rightarrow>
          (case minL of None \<Rightarrow> 0 | Some m \<Rightarrow> m) \<le> length xs \<and>
          (case maxL of None \<Rightarrow> True | Some m \<Rightarrow> length xs \<le> m) \<and>
          (case its of
             None \<Rightarrow> True
           | Some it \<Rightarrow> (\<forall>x \<in> set (entriesToValidate it maxE xs). valid_per mode it x))
      | _ \<Rightarrow> False)"
| "valid_per mode (UpgradedE uniqueName old new deadline) v =
     (valid_per mode new v \<or> valid_per mode old v)"

subsection \<open>The deprecation warnings of a process\<close>

text \<open>The number of warnings handed to the logger for a unique name.\<close>

fun warningsFor :: "string \<Rightarrow> event list \<Rightarrow> nat" where
  "warningsFor n [] = 0"
| "warningsFor n (Warned m msg # t) = (if m = n then 1 else 0) + warningsFor n t"
| "warningsFor n (e # t) = warningsFor n t"

text \<open>
  The text of a deprecation warning, in the words of the specification: the unique name,
  then when legacy support ends, which is \<open>after <deadline>\<close> for a schema with a deadline
  and \<open>soon\<close> for a schema without one (or with an empty one).
\<close>

definition warningText :: "string \<Rightarrow> string \<Rightarrow> string" where
  "warningText uniqueName w =
     ''[DEPRECATION] The schema for '' @ uniqueName @
     '' has been upgraded and legacy support will be removed '' @ w @ ''.''"

definition removalTime :: "string option \<Rightarrow> string" where
  "removalTime deadline =
     (case deadline of
        None \<Rightarrow> ''soon''
      | Some d \<Rightarrow> if d = [] then ''soon'' else ''after '' @ d)"

text \<open>
  The upgraded schemas inside a schema expression, each as its unique name and its own
  deadline.
\<close>

fun upgradesOf :: "schema_expr \<Rightarrow> (string \<times> string option) set" where
  "upgradesOf (LeafE cost serDes check) = {}"
| "upgradesOf (ArrayE its minL maxL maxE) =
     (case its of None \<Rightarrow> {} | Some it \<Rightarrow> upgradesOf it)"
| "upgradesOf (UpgradedE uniqueName old new deadline) =
     insert (uniqueName, deadline) (upgradesOf old \<union> upgradesOf new)"

text \<open>
  An event is a warning of one of the upgraded schemas \<open>D\<close> when it is no warning at all,
  or it carries the name of a schema of \<open>D\<close> and the text made from that name and that
  schema's own deadline.
\<close>

definition isWarningOf :: "(string \<times> string option) set \<Rightarrow> event \<Rightarrow> bool" where
  "isWarningOf D e =
     (case e of
        Warned n msg \<Rightarrow> (\<exists>d. (n, d) \<in> D \<and> msg = warningText n (removalTime d))
      | _ \<Rightarrow> True)"

text \<open>
  A sequence of top-level validations in one process: each request names the path
  (asynchronous or not), the schema, the value, the options and the starting path.
\<close>

type_synonym request = "bool \<times> schema_expr \<times> jsval \<times> validation_options \<times> path"

fun run :: "request list \<Rightarrow> vstate \<Rightarrow> vstate" where
  "run [] s = s"
| "run ((isAsync, S, v, vo, p) # rs) s =
     run rs (snd ((if isAsync then internalValidateAsync (build S) else internalValidate (build S))
                    v vo p s))"

text \<open>The upgraded schemas of all the schemas validated by a sequence of requests.\<close>

definition requested :: "request list \<Rightarrow> (string \<times> string option) set" where
  "requested rs = (\<Union>r \<in> set rs. upgradesOf (fst (snd r)))"

text \<open>
  The invariant of the process state, for the upgraded schemas \<open>D\<close> in use: a name is in
  \<open>alreadyLogUpgradedWarnings\<close> exactly when one warning was logged for it, no name has
  more, and every logged warning is a warning of a schema of \<open>D\<close>. A schema keeps the
  invariant when both of its validators do.
\<close>

definition warnInv :: "(string \<times> string option) set \<Rightarrow> vstate \<Rightarrow> bool" where
  "warnInv D s \<longleftrightarrow>
     (\<forall>n. warningsFor n (trace s) = (if n \<in> alreadyLogUpgradedWarnings s then 1 else 0)) \<and>
     (\<forall>e \<in> set (trace s). isWarningOf D e)"

definition keepsInv :: "(string \<times> string option) set \<Rightarrow> schema \<Rightarrow> bool" where
  "keepsInv D sc \<longleftrightarrow>
     (\<forall>v vo p s. warnInv D s \<longrightarrow>
        warnInv D (snd (internalValidate sc v vo p s)) \<and>
        warnInv D (snd (internalValidateAsync sc v vo p s)))"

subsection \<open>The item loops, step by step and chunk by chunk\<close>

text \<open>
  One step of each item loop: the event, then the call of the item schema's validator at
  the extended path.
\<close>

definition syncItem ::
  "schema \<Rightarrow> validate_array_args \<Rightarrow> jsval \<Rightarrow> nat \<Rightarrow> vstate \<Rightarrow> verror option \<times> vstate" where
  "syncItem it args x index s =
     internalValidate it x (validatorOptions args) (appendPathIndex (path args) index)
       (addEvent (ItemValidated False (appendPathIndex (path args) index)) s)"

definition asyncItem ::
  "schema \<Rightarrow> validate_array_args \<Rightarrow> nat \<Rightarrow> jsval \<Rightarrow> nat \<Rightarrow> vstate \<Rightarrow> verror option \<times> vstate" where
  "asyncItem it args threshold x index s =
     pickValidator threshold it x (validatorOptions args) (appendPathIndex (path args) index)
       (addEvent (ItemValidated (threshold < estimatedValidationTimeComplexity it)
          (appendPathIndex (path args) index)) s)"

text \<open>
  A list cut into consecutive chunks of \<open>k\<close> elements (the last one may be shorter). With
  the size \<open>Infinity\<close> the whole list is one chunk; with \<open>NaN\<close> the loop is entered once
  and no element passes the test \<open>index < chunkStartIndex + chunkSize\<close>.
\<close>

function chunks :: "nat \<Rightarrow> 'a list \<Rightarrow> 'a list list" where
  "chunks k xs = (if xs = [] \<or> k = 0 then [] else take k xs # chunks k (drop k xs))"
  by pat_completeness auto

termination
  by (relation "measure (\<lambda>(k, xs). length xs)") auto

definition chunksOf :: "js_number \<Rightarrow> 'a list \<Rightarrow> 'a list list" where
  "chunksOf chunk xs =
     (case chunk of
        Finite k \<Rightarrow> chunks k xs
      | Infinity \<Rightarrow> (if xs = [] then [] else [xs])
      | NaN \<Rightarrow> (if xs = [] then [] else [[]]))"

text \<open>
  The asynchronous item loop as a walk over a list of chunks of indexed elements, without
  index arithmetic: before each chunk \<open>shouldYield\<close> is consulted (and \<open>yield\<close> awaited
  when it says so); within a chunk each element goes to the validator picked by the item
  schema's cost. Reaching \<open>maxEntriesToValidate\<close> ends the walk.
\<close>

fun walkItems ::
  "schema \<Rightarrow> validate_array_args \<Rightarrow> nat \<Rightarrow> (nat \<times> jsval) list \<Rightarrow> verror option \<Rightarrow> vstate
     \<Rightarrow> chunk_result \<times> verror option \<times> vstate" where
  "walkItems it args threshold [] errorResult s = (ChunkUndefined, errorResult, s)"
| "walkItems it args threshold ((index, x) # rest) errorResult s =
     (if reachedMaxEntries args index then (ChunkFalse, errorResult, s)
      else if errorResult = None \<and> fst (asyncItem it args threshold x index s) \<noteq> None then
        (if shouldStopOnFirstError args then (ChunkError, asyncItem it args threshold x index s)
         else walkItems it args threshold rest (fst (asyncItem it args threshold x index s))
                (snd (asyncItem it args threshold x index s)))
      else walkItems it args threshold rest errorResult (snd (asyncItem it args threshold x index s)))"

fun walkChunks ::
  "schema \<Rightarrow> validate_array_args \<Rightarrow> nat \<Rightarrow> (nat \<times> jsval) list list \<Rightarrow> verror option \<Rightarrow> vstate
     \<Rightarrow> verror option \<times> vstate" where
  "walkChunks it args threshold [] errorResult s = (errorResult, s)"
| "walkChunks it args threshold (c # cs) errorResult s =
     (if fst (walkItems it args threshold c errorResult (consultShouldYield (validatorOptions args) s))
           = ChunkFalse
      then snd (walkItems it args threshold c errorResult (consultShouldYield (validatorOptions args) s))
      else walkChunks it args threshold cs
             (fst (snd (walkItems it args threshold c errorResult
                          (consultShouldYield (validatorOptions args) s))))
             (snd (snd (walkItems it args threshold c errorResult
                          (consultShouldYield (validatorOptions args) s)))))"

text \<open>The elements of the chunk started at \<open>chunkStartIndex\<close>, from \<open>index\<close> on.\<close>

definition chunkSlice :: "js_number \<Rightarrow> nat \<Rightarrow> nat \<Rightarrow> 'a list \<Rightarrow> 'a list" where
  "chunkSlice chunk chunkStartIndex index xs =
     (case chunk of
        Finite k \<Rightarrow> take (chunkStartIndex + k - index) (drop index xs)
      | Infinity \<Rightarrow> drop index xs
      | NaN \<Rightarrow> [])"

subsection \<open>Examples\<close>

text \<open>
  Modelled from the spec: the leaves of the examples. The tests of the string schema
  accept non-empty strings and refuse every other value; a number schema takes numbers;
  a date is a leaf with custom serialization.
\<close>

definition stringCheck :: "validation_mode \<Rightarrow> jsval \<Rightarrow> string option" where
  "stringCheck m v =
     (case v of
        JStr t \<Rightarrow> if t = [] then Some ''Expected a non-empty string'' else None
      | _ \<Rightarrow> Some ''Expected string'')"

definition stringSchema :: schema where
  "stringSchema = leaf 1 False stringCheck"

definition numberCheck :: "validation_mode \<Rightarrow> jsval \<Rightarrow> string option" where
  "numberCheck m v = (case v of JNum n \<Rightarrow> None | _ \<Rightarrow> Some ''Expected number'')"

definition numberSchema :: schema where
  "numberSchema = leaf 1 False numberCheck"

definition dateCheck :: "validation_mode \<Rightarrow> jsval \<Rightarrow> string option" where
  "dateCheck m v = (case v of JStr t \<Rightarrow> None | _ \<Rightarrow> Some ''Expected date'')"

definition dateSchema :: schema where
  "dateSchema = leaf 1 True dateCheck"

text \<open>Options of a validation call: the mode and a \<open>shouldYield\<close>.\<close>

definition hardOptions :: validation_options where
  "hardOptions = \<lparr>validation = Hard, shouldYield = (\<lambda>t. False)\<rparr>"

definition noneOptions :: validation_options where
  "noneOptions = \<lparr>validation = NoValidation, shouldYield = (\<lambda>t. False)\<rparr>"

definition yieldFirst :: validation_options where
  "yieldFirst = \<lparr>validation = Hard, shouldYield = (\<lambda>t. t = [])\<rparr>"

text \<open>
  Array options: strings without bounds, with bounds, with a limit; dates with bounds;
  arrays of strings.
\<close>

definition plainStrings :: array_options where
  "plainStrings =
     \<lparr>items = Some stringSchema, minLength = None, maxLength = None, maxEntriesToValidate = None\<rparr>"

definition boundedStrings :: array_options where
  "boundedStrings =
     \<lparr>items = Some stringSchema, minLength = Some 2, maxLength = Some 4, maxEntriesToValidate = None\<rparr>"

definition firstStringOnly :: array_options where
  "firstStringOnly =
     \<lparr>items = Some stringSchema, minLength = Some 3, maxLength = None, maxEntriesToValidate = Some 1\<rparr>"

definition boundedDates :: array_options where
  "boundedDates =
     \<lparr>items = Some dateSchema, minLength = Some 2, maxLength = Some 3, maxEntriesToValidate = None\<rparr>"

definition stringLists :: array_options where
  "stringLists =
     \<lparr>items = Some (array plainStrings), minLength = None, maxLength = None,
      maxEntriesToValidate = None\<rparr>"

definition threeStrings :: "jsval list" where
  "threeStrings = [JStr ''a'', JStr ''b'', JStr ''c'']"

text \<open>
  The upgraded schema of the specification's scenario, \<open>userId\<close> from number to string, as
  a schema and as an expression, the same with a deadline, and a non-empty array of it.
\<close>

definition userIdUpgrade :: schema where
  "userIdUpgrade = upgraded ''userId'' numberSchema stringSchema None"

definition userIdExpr :: schema_expr where
  "userIdExpr = UpgradedE ''userId'' (LeafE 1 False numberCheck) (LeafE 1 False stringCheck) None"

definition userIdUntil :: schema_expr where
  "userIdUntil =
     UpgradedE ''userId'' (LeafE 1 False numberCheck) (LeafE 1 False stringCheck)
       (Some ''2030-01-01'')"

definition userIdList :: schema_expr where
  "userIdList = ArrayE (Some userIdExpr) (Some 1) None None"

section \<open>Basic facts\<close>

text \<open>The fields of the argument object and of the schema that \<open>array\<close> builds.\<close>

lemma arrayArgs_sel [simp]:
  "items (arrayArgs options deep p vo) = items options"
  "minLength (arrayArgs options deep p vo) = minLength options"
  "maxLength (arrayArgs options deep p vo) = maxLength options"
  "maxEntriesToValidate (arrayArgs options deep p vo) = maxEntriesToValidate options"
  "needsDeepSerDes (arrayArgs options deep p vo) = deep"
  "path (arrayArgs options deep p vo) = p"
  "validatorOptions (arrayArgs options deep p vo) = vo"
  by (simp_all add: arrayArgs_def)

lemma array_sel [simp]:
  "usesCustomSerDes (array options) =
     (case items options of None \<Rightarrow> False | Some it \<Rightarrow> usesCustomSerDes it)"
  "internalValidate (array options) v vo p =
     validateArray v (arrayArgs options
       (case items options of None \<Rightarrow> False | Some it \<Rightarrow> usesCustomSerDes it) p vo)"
  "internalValidateAsync (array options) v vo p =
     asyncValidateArray v (arrayArgs options
       (case items options of None \<Rightarrow> False | Some it \<Rightarrow> usesCustomSerDes it) p vo)"
  by (simp_all add: array_def Let_def)

lemma checkBounds_within:
  "withinBounds args len \<Longrightarrow> checkBounds args len = Inr None"
  by (auto simp: withinBounds_def checkBounds_def Let_def split: option.splits)

text \<open>
  The two asynchronous loops are unfolded by hand (\<open>chunkItems_unfold\<close>,
  \<open>asyncChunks_unfold\<close>), never by the simplifier on its own.
\<close>

declare chunkItems.simps [simp del]

declare asyncChunks.simps [simp del]

lemma accepts_pick: "accepts sc vo v \<Longrightarrow> fst (pickValidator t sc v vo p s) = None"
  by (simp add: accepts_def pickValidator_def)

lemma rejects_pick: "rejects sc vo v \<Longrightarrow> fst (pickValidator t sc v vo p s) \<noteq> None"
  by (simp add: rejects_def pickValidator_def)

section \<open>The synchronous item loop\<close>

text \<open>The loop body, with the item step named.\<close>

lemma validateItems_Cons:
  "validateItems it args (x # xs) index errorResult s =
     (if reachedMaxEntries args index then (errorResult, s)
      else if errorResult = None \<and> fst (syncItem it args x index s) \<noteq> None then
             (if shouldStopOnFirstError args then syncItem it args x index s
              else validateItems it args xs (Suc index) (fst (syncItem it args x index s))
                     (snd (syncItem it args x index s)))
           else validateItems it args xs (Suc index) errorResult (snd (syncItem it args x index s)))"
  by (simp add: syncItem_def Let_def split: prod.splits)

declare validateItems.simps(2) [simp del]

text \<open>Once \<open>errorResult\<close> is set, no later element replaces it.\<close>

lemma validateItems_error_kept:
  "fst (validateItems it args xs index (Some e) s) = Some e"
  by (induction xs arbitrary: index s) (simp_all add: validateItems_Cons)

text \<open>
  When every element the loop reaches is accepted, the loop reports no error; when some
  element is rejected and no limit applies, it reports one.
\<close>

lemma validateItems_accepted:
  assumes "\<forall>i < length xs. \<not> reachedMaxEntries args (index + i) \<longrightarrow>
             (\<forall>p s. fst (internalValidate it (xs ! i) (validatorOptions args) p s) = None)"
  shows "fst (validateItems it args xs index None s) = None"
  using assms
proof (induction xs arbitrary: index s)
  case Nil
  then show ?case by simp
next
  case (Cons x xs)
  show ?case
  proof (cases "reachedMaxEntries args index")
    case True
    then show ?thesis by (simp add: validateItems_Cons)
  next
    case False
    have "fst (syncItem it args x index s) = None"
      using Cons.prems False by (auto simp: syncItem_def dest: spec[where x=0])
    moreover have "fst (validateItems it args xs (Suc index) None (snd (syncItem it args x index s))) = None"
    proof (rule Cons.IH, intro allI impI)
      fix i p s' assume "i < length xs" "\<not> reachedMaxEntries args (Suc index + i)"
      then show "fst (internalValidate it (xs ! i) (validatorOptions args) p s') = None"
        using Cons.prems by (auto dest!: spec[where x="Suc i"])
    qed
    ultimately show ?thesis
      using False by (simp add: validateItems_Cons)
  qed
qed

lemma validateItems_rejected:
  assumes "\<forall>i. \<not> reachedMaxEntries args i"
    and "j < length xs"
    and "\<forall>p s. fst (internalValidate it (xs ! j) (validatorOptions args) p s) \<noteq> None"
  shows "fst (validateItems it args xs index errorResult s) \<noteq> None"
  using assms(2,3)
proof (induction xs arbitrary: index s errorResult j)
  case Nil
  then show ?case by simp
next
  case (Cons x xs)
  let ?r = "syncItem it args x index s"
  show ?case
  proof (cases errorResult)
    case (Some e)
    then show ?thesis using validateItems_error_kept[of it args "x # xs" index e s] by simp
  next
    case None
    show ?thesis
    proof (cases "fst ?r")
      case (Some e)
      then show ?thesis
        using None assms(1) validateItems_error_kept[of it args xs "Suc index" e "snd ?r"]
        by (simp add: validateItems_Cons)
    next
      case N2: None
      have "j \<noteq> 0"
      proof
        assume "j = 0"
        with Cons.prems(2) have "fst ?r \<noteq> None" by (simp add: syncItem_def)
        with N2 show False by simp
      qed
      then obtain j' where j': "j = Suc j'" by (cases j) auto
      have "fst (validateItems it args xs (Suc index) None (snd ?r)) \<noteq> None"
        using Cons.IH[of j' "Suc index" None "snd ?r"] Cons.prems j' by simp
      then show ?thesis
        using None N2 assms(1) by (simp add: validateItems_Cons)
    qed
  qed
qed

text \<open>The loop does not read \<open>minLength\<close> or \<open>maxLength\<close>.\<close>

lemma validateItems_bounds_irrelevant:
  "validateItems it (args\<lparr>minLength := a, maxLength := b\<rparr>) xs index errorResult s =
   validateItems it args xs index errorResult s"
  by (induction xs arbitrary: index errorResult s)
     (simp_all add: validateItems_Cons syncItem_def reachedMaxEntries_def shouldStopOnFirstError_def)

section \<open>The asynchronous item loops\<close>

text \<open>The bodies of the two loops, with the item step named.\<close>

lemma chunkItems_unfold:
  "chunkItems it args threshold xs chunkStartIndex index errorResult s =
     (if index < length xs \<and>
         withinChunk (chunkSize threshold (estimatedValidationTimeComplexity it)) chunkStartIndex index
      then
        if reachedMaxEntries args index then (ChunkFalse, errorResult, s)
        else if errorResult = None \<and> fst (asyncItem it args threshold (xs ! index) index s) \<noteq> None then
          (if shouldStopOnFirstError args
           then (ChunkError, asyncItem it args threshold (xs ! index) index s)
           else chunkItems it args threshold xs chunkStartIndex (Suc index)
                  (fst (asyncItem it args threshold (xs ! index) index s))
                  (snd (asyncItem it args threshold (xs ! index) index s)))
        else chunkItems it args threshold xs chunkStartIndex (Suc index) errorResult
               (snd (asyncItem it args threshold (xs ! index) index s))
      else (ChunkUndefined, errorResult, s))"
  by (subst chunkItems.simps) (simp add: asyncItem_def Let_def split: prod.splits)

lemma asyncChunks_unfold:
  "asyncChunks it args threshold xs chunkStartIndex errorResult s =
     (if chunkStartIndex < length xs then
        if fst (processChunk it args threshold xs chunkStartIndex errorResult s) = ChunkFalse
        then snd (processChunk it args threshold xs chunkStartIndex errorResult s)
        else
          (case chunkSize threshold (estimatedValidationTimeComplexity it) of
             Finite k \<Rightarrow>
               asyncChunks it args threshold xs (chunkStartIndex + k)
                 (fst (snd (processChunk it args threshold xs chunkStartIndex errorResult s)))
                 (snd (snd (processChunk it args threshold xs chunkStartIndex errorResult s)))
           | Infinity \<Rightarrow> snd (processChunk it args threshold xs chunkStartIndex errorResult s)
           | NaN \<Rightarrow> snd (processChunk it args threshold xs chunkStartIndex errorResult s))
      else (errorResult, s))"
  by (subst asyncChunks.simps) (simp add: Let_def split: prod.splits js_number.splits)

lemma chunkSize_Finite_pos: "chunkSize t c = Finite k \<Longrightarrow> 0 < k"
  by (auto simp: chunkSize_def split: if_splits)

text \<open>The same facts as for the synchronous loop, for each of the two loops.\<close>

lemma chunkItems_error_kept:
  "fst (snd (chunkItems it args threshold xs chunkStartIndex index (Some e) s)) = Some e"
proof (induction "length xs - index" arbitrary: index s rule: less_induct)
  case less
  show ?case
    by (subst chunkItems_unfold) (auto intro!: less)
qed

lemma chunkItems_accepted:
  assumes "\<forall>i < length xs. \<not> reachedMaxEntries args i \<longrightarrow>
             (\<forall>p s. fst (pickValidator threshold it (xs ! i) (validatorOptions args) p s) = None)"
  shows "fst (snd (chunkItems it args threshold xs chunkStartIndex index None s)) = None"
proof (induction "length xs - index" arbitrary: index s rule: less_induct)
  case less
  show ?case
    using assms by (subst chunkItems_unfold) (auto intro!: less simp: asyncItem_def)
qed

lemma withinChunk_mono:
  "withinChunk c start j \<Longrightarrow> i \<le> j \<Longrightarrow> withinChunk c start i"
  by (auto simp: withinChunk_def split: js_number.splits)

lemma chunkItems_rejected:
  assumes "\<forall>i. \<not> reachedMaxEntries args i"
    and "j < length xs"
    and "withinChunk (chunkSize threshold (estimatedValidationTimeComplexity it)) chunkStartIndex j"
    and "\<forall>p s. fst (pickValidator threshold it (xs ! j) (validatorOptions args) p s) \<noteq> None"
  shows "index \<le> j \<Longrightarrow>
         fst (snd (chunkItems it args threshold xs chunkStartIndex index errorResult s)) \<noteq> None"
proof (induction "length xs - index" arbitrary: index s errorResult rule: less_induct)
  case less
  let ?r = "asyncItem it args threshold (xs ! index) index s"
  have in_chunk: "index < length xs"
    "withinChunk (chunkSize threshold (estimatedValidationTimeComplexity it)) chunkStartIndex index"
    using less.prems assms(2,3) by (auto intro: withinChunk_mono)
  show ?case
  proof (cases errorResult)
    case (Some e)
    then show ?thesis by (simp add: chunkItems_error_kept)
  next
    case None
    show ?thesis
    proof (cases "fst ?r")
      case (Some e)
      then show ?thesis
        using None in_chunk assms(1)
        by (subst chunkItems_unfold) (simp add: chunkItems_error_kept)
    next
      case N2: None
      have "index \<noteq> j"
      proof
        assume "index = j"
        with assms(4) have "fst ?r \<noteq> None" by (simp add: asyncItem_def)
        with N2 show False by simp
      qed
      with less.prems have "Suc index \<le> j" by simp
      then have "fst (snd (chunkItems it args threshold xs chunkStartIndex (Suc index) None (snd ?r))) \<noteq> None"
        using in_chunk by (intro less) auto
      then show ?thesis
        using None N2 in_chunk assms(1) by (subst chunkItems_unfold) simp
    qed
  qed
qed

lemma chunkItems_not_false:
  assumes "\<forall>i. \<not> reachedMaxEntries args i"
  shows "fst (chunkItems it args threshold xs chunkStartIndex index errorResult s) \<noteq> ChunkFalse"
proof (induction "length xs - index" arbitrary: index s errorResult rule: less_induct)
  case less
  show ?case
    using assms by (subst chunkItems_unfold) (auto intro!: less)
qed

lemma asyncChunks_error_kept:
  "fst (asyncChunks it args threshold xs chunkStartIndex (Some e) s) = Some e"
proof (induction "length xs - chunkStartIndex" arbitrary: chunkStartIndex s rule: less_induct)
  case less
  have pc: "fst (snd (processChunk it args threshold xs chunkStartIndex (Some e) s)) = Some e"
    by (simp add: processChunk_def chunkItems_error_kept)
  show ?case
  proof (cases "chunkStartIndex < length xs")
    case False
    then show ?thesis by (subst asyncChunks_unfold) simp
  next
    case True
    show ?thesis
    proof (cases "chunkSize threshold (estimatedValidationTimeComplexity it)")
      case (Finite k)
      then have "0 < k" by (rule chunkSize_Finite_pos)
      then have "fst (asyncChunks it args threshold xs (chunkStartIndex + k) (Some e)
          (snd (snd (processChunk it args threshold xs chunkStartIndex (Some e) s)))) = Some e"
        using True by (intro less) auto
      then show ?thesis
        using True Finite pc by (subst asyncChunks_unfold) simp
    next
      case Infinity
      then show ?thesis using True pc by (subst asyncChunks_unfold) simp
    next
      case NaN
      then show ?thesis using True pc by (subst asyncChunks_unfold) simp
    qed
  qed
qed

lemma asyncChunks_accepted:
  assumes "\<forall>i < length xs. \<not> reachedMaxEntries args i \<longrightarrow>
             (\<forall>p s. fst (pickValidator threshold it (xs ! i) (validatorOptions args) p s) = None)"
  shows "fst (asyncChunks it args threshold xs chunkStartIndex None s) = None"
proof (induction "length xs - chunkStartIndex" arbitrary: chunkStartIndex s rule: less_induct)
  case less
  have pc: "fst (snd (processChunk it args threshold xs chunkStartIndex None s)) = None"
    using assms by (simp add: processChunk_def chunkItems_accepted)
  show ?case
  proof (cases "chunkStartIndex < length xs")
    case False
    then show ?thesis by (subst asyncChunks_unfold) simp
  next
    case True
    show ?thesis
    proof (cases "chunkSize threshold (estimatedValidationTimeComplexity it)")
      case (Finite k)
      then have "0 < k" by (rule chunkSize_Finite_pos)
      then have "fst (asyncChunks it args threshold xs (chunkStartIndex + k) None
          (snd (snd (processChunk it args threshold xs chunkStartIndex None s)))) = None"
        using True by (intro less) auto
      then show ?thesis
        using True Finite pc by (subst asyncChunks_unfold) simp
    next
      case Infinity
      then show ?thesis using True pc by (subst asyncChunks_unfold) simp
    next
      case NaN
      then show ?thesis using True pc by (subst asyncChunks_unfold) simp
    qed
  qed
qed

lemma asyncChunks_rejected:
  assumes "\<forall>i. \<not> reachedMaxEntries args i"
    and "j < length xs"
    and "chunkSize threshold (estimatedValidationTimeComplexity it) \<noteq> NaN"
    and "\<forall>p s. fst (pickValidator threshold it (xs ! j) (validatorOptions args) p s) \<noteq> None"
  shows "chunkStartIndex \<le> j \<Longrightarrow>
         fst (asyncChunks it args threshold xs chunkStartIndex errorResult s) \<noteq> None"
proof (induction "length xs - chunkStartIndex" arbitrary: chunkStartIndex s errorResult rule: less_induct)
  case less
  let ?c = "chunkSize threshold (estimatedValidationTimeComplexity it)"
  let ?pc = "processChunk it args threshold xs chunkStartIndex errorResult s"
  have lt: "chunkStartIndex < length xs" using less.prems assms(2) by simp
  have nf: "fst ?pc \<noteq> ChunkFalse"
    using assms(1) by (simp add: processChunk_def chunkItems_not_false)
  have inside: "withinChunk ?c chunkStartIndex j \<Longrightarrow> fst (snd ?pc) \<noteq> None"
    using chunkItems_rejected[OF assms(1,2) _ assms(4) less.prems]
    by (simp add: processChunk_def)
  show ?case
  proof (cases ?c)
    case (Finite k)
    then have k: "0 < k" by (rule chunkSize_Finite_pos)
    show ?thesis
    proof (cases "j < chunkStartIndex + k")
      case True
      then have "fst (snd ?pc) \<noteq> None" using inside Finite by (simp add: withinChunk_def)
      then obtain e where "fst (snd ?pc) = Some e" by auto
      then show ?thesis
        using lt nf Finite by (subst asyncChunks_unfold) (simp add: asyncChunks_error_kept)
    next
      case False
      then have "fst (asyncChunks it args threshold xs (chunkStartIndex + k)
          (fst (snd ?pc)) (snd (snd ?pc))) \<noteq> None"
        using k lt by (intro less) auto
      then show ?thesis
        using lt nf Finite by (subst asyncChunks_unfold) simp
    qed
  next
    case Infinity
    then have "fst (snd ?pc) \<noteq> None" using inside by (simp add: withinChunk_def)
    then show ?thesis
      using lt nf Infinity by (subst asyncChunks_unfold) simp
  next
    case NaN
    then show ?thesis using assms(3) by simp
  qed
qed

lemma chunkItems_bounds_irrelevant:
  "chunkItems it (args\<lparr>minLength := a, maxLength := b\<rparr>) threshold xs chunkStartIndex index errorResult s =
   chunkItems it args threshold xs chunkStartIndex index errorResult s"
proof (induction "length xs - index" arbitrary: index s errorResult rule: less_induct)
  case less
  have IH: "\<And>e s'. index < length xs \<Longrightarrow>
      chunkItems it (args\<lparr>minLength := a, maxLength := b\<rparr>) threshold xs chunkStartIndex (Suc index) e s' =
      chunkItems it args threshold xs chunkStartIndex (Suc index) e s'"
    by (rule less) auto
  show ?case
    by (subst chunkItems_unfold, subst (2) chunkItems_unfold)
       (simp add: IH asyncItem_def reachedMaxEntries_def shouldStopOnFirstError_def)
qed

lemma asyncChunks_bounds_irrelevant:
  "asyncChunks it (args\<lparr>minLength := a, maxLength := b\<rparr>) threshold xs chunkStartIndex errorResult s =
   asyncChunks it args threshold xs chunkStartIndex errorResult s"
proof (induction "length xs - chunkStartIndex" arbitrary: chunkStartIndex s errorResult rule: less_induct)
  case less
  have pc: "\<And>e s'. processChunk it (args\<lparr>minLength := a, maxLength := b\<rparr>) threshold xs chunkStartIndex e s' =
      processChunk it args threshold xs chunkStartIndex e s'"
    by (simp add: processChunk_def chunkItems_bounds_irrelevant)
  have IH: "\<And>k e s'. chunkStartIndex < length xs \<Longrightarrow> 0 < k \<Longrightarrow>
      asyncChunks it (args\<lparr>minLength := a, maxLength := b\<rparr>) threshold xs (chunkStartIndex + k) e s' =
      asyncChunks it args threshold xs (chunkStartIndex + k) e s'"
    by (rule less) auto
  show ?case
    by (subst asyncChunks_unfold, subst (2) asyncChunks_unfold)
       (auto simp: pc IH dest: chunkSize_Finite_pos split: js_number.splits)
qed

text \<open>The equations that evaluate the model on a concrete input.\<close>

lemmas eval_simps =
  asyncValidateArray_def validateArray_def asyncChunks_unfold chunkItems_unfold validateItems_Cons
  processChunk_def consultShouldYield_def addEvent_def chunkSize_def withinChunk_def
  reachedMaxEntries_def shouldStopOnFirstError_def checkBounds_def appendPathIndex_def
  asyncItem_def syncItem_def leafValidate_def fresh_def Let_def
  stringSchema_def numberSchema_def dateSchema_def stringCheck_def numberCheck_def dateCheck_def
  hardOptions_def noneOptions_def

section \<open>The cost of an array\<close>

text \<open>
  C2. The cost of an array schema is the cost of its item schema (1 without an item
  schema) times a representative length: \<open>maxEntriesToValidate\<close> when the array skips
  serialization work and \<open>maxLength\<close> when it does not, and 100 when the option so chosen
  is not given.
\<close>

theorem array_estimatedValidationTimeComplexity:
  "estimatedValidationTimeComplexity (array options) =
     (case items options of None \<Rightarrow> 1 | Some it \<Rightarrow> estimatedValidationTimeComplexity it) *
     representativeLength options"
  by (simp add: array_def representativeLength_def skipsSerialization_def
        ESTIMATED_AVG_ARRAY_LENGTH_def Let_def split: option.splits)

theorem array_estimatedValidationTimeComplexity_witness:
  "estimatedValidationTimeComplexity
     (array \<lparr>items = Some stringSchema, minLength = None, maxLength = Some 7,
             maxEntriesToValidate = None\<rparr>) = 100"
  using array_estimatedValidationTimeComplexity
    [of "\<lparr>items = Some stringSchema, minLength = None, maxLength = Some 7,
          maxEntriesToValidate = None\<rparr>"]
  by (simp add: representativeLength_def skipsSerialization_def stringSchema_def leaf_def)

section \<open>Arrays without an item schema\<close>

text \<open>
  C10. An array schema built without an item schema accepts, synchronously and
  asynchronously, every array whose length is within the bounds, whatever its elements
  are. The state is returned as it was: no element is handed to any validator.
\<close>

theorem array_without_items:
  assumes "items options = None" and "withinBounds options (length xs)"
  shows "internalValidate (array options) (JArr xs) vo p s = (None, s) \<and>
         internalValidateAsync (array options) (JArr xs) vo p s = (None, s)"
proof -
  let ?args = "arrayArgs options False p vo"
  have w: "withinBounds ?args (length xs)"
    using assms(2) by (simp add: withinBounds_def)
  have "validateArray (JArr xs) ?args s = (None, s)"
    using assms(1) by (simp add: validateArray_def checkBounds_within[OF w])
  moreover have "asyncValidateArray (JArr xs) ?args s = (None, s)"
    using assms(1) by (simp add: asyncValidateArray_def checkBounds_within[OF w])
  ultimately show ?thesis using assms(1) by simp
qed

theorem array_without_items_witness:
  "internalValidate
     (array \<lparr>items = None, minLength = Some 1, maxLength = Some 2, maxEntriesToValidate = None\<rparr>)
     (JArr [JNum 1, JUndefined]) hardOptions [] (fresh 250)
     = (None, fresh 250) \<and>
   internalValidateAsync
     (array \<lparr>items = None, minLength = Some 1, maxLength = Some 2, maxEntriesToValidate = None\<rparr>)
     (JArr [JNum 1, JUndefined]) hardOptions [] (fresh 250)
     = (None, fresh 250)"
  using array_without_items
    [of "\<lparr>items = None, minLength = Some 1, maxLength = Some 2, maxEntriesToValidate = None\<rparr>"
        "[JNum 1, JUndefined]" hardOptions "[]"
        "fresh 250"]
  by (simp add: withinBounds_def)

section \<open>The length bounds\<close>

lemma arrayArgs_withoutBounds:
  "arrayArgs (withoutBounds options) deep p vo =
   (arrayArgs options deep p vo)\<lparr>minLength := None, maxLength := None\<rparr>"
  by (simp add: arrayArgs_def withoutBounds_def)

lemma withoutBounds_sel [simp]:
  "items (withoutBounds options) = items options"
  "maxEntriesToValidate (withoutBounds options) = maxEntriesToValidate options"
  "minLength (withoutBounds options) = None"
  "maxLength (withoutBounds options) = None"
  by (simp_all add: withoutBounds_def)

lemma checkBounds_unbounded:
  "checkBounds (args\<lparr>minLength := None, maxLength := None\<rparr>) len = Inr None"
  by (simp add: checkBounds_def)

lemma checkBounds_tooShort:
  assumes "len < minLengthOf args"
  shows "checkBounds args len =
     (if shouldStopOnFirstError args then Inl (TooShort (minLengthOf args) len (path args))
      else Inr (Some (TooShort (minLengthOf args) len (path args))))"
  using assms by (simp add: checkBounds_def minLengthOf_def)

lemma checkBounds_tooLong:
  assumes "minLengthOf args \<le> len" and "maxLength args = Some m" and "m < len"
  shows "checkBounds args len =
     (if shouldStopOnFirstError args then Inl (TooLong m len (path args))
      else Inr (Some (TooLong m len (path args))))"
  using assms by (simp add: checkBounds_def minLengthOf_def)

text \<open>What the two helpers return once the length tests have found a violation.\<close>

lemma validateArray_bounds_error:
  assumes "needsDeepSerDes args \<or> validation (validatorOptions args) \<noteq> NoValidation"
    and "checkBounds args (length xs) = (if shouldStopOnFirstError args then Inl e else Inr (Some e))"
  shows "fst (validateArray (JArr xs) args s) = Some e"
  using assms
  by (auto simp: validateArray_def validateItems_error_kept split: option.splits)

lemma asyncValidateArray_bounds_error:
  assumes "validation (validatorOptions args) \<noteq> NoValidation"
    and "checkBounds args (length xs) = (if shouldStopOnFirstError args then Inl e else Inr (Some e))"
  shows "fst (asyncValidateArray (JArr xs) args s) = Some e"
  using assms
  by (auto simp: asyncValidateArray_def asyncChunks_error_kept split: option.splits)

lemma validateArray_within_bounds:
  assumes "withinBounds args (length xs)"
  shows "validateArray (JArr xs) (args\<lparr>minLength := None, maxLength := None\<rparr>) s =
         validateArray (JArr xs) args s"
  by (simp add: validateArray_def checkBounds_unbounded checkBounds_within[OF assms]
        validateItems_bounds_irrelevant split: option.splits)

lemma asyncValidateArray_within_bounds:
  assumes "withinBounds args (length xs)"
  shows "asyncValidateArray (JArr xs) (args\<lparr>minLength := None, maxLength := None\<rparr>) s =
         asyncValidateArray (JArr xs) args s"
  by (simp add: asyncValidateArray_def checkBounds_unbounded checkBounds_within[OF assms]
        asyncChunks_bounds_irrelevant split: option.splits)

lemma asyncValidateArray_no_validation:
  assumes "validation (validatorOptions args) = NoValidation"
  shows "asyncValidateArray (JArr xs) (args\<lparr>minLength := None, maxLength := None\<rparr>) s =
         asyncValidateArray (JArr xs) args s"
  using assms
  by (simp add: asyncValidateArray_def asyncChunks_bounds_irrelevant split: option.splits)

lemma array_withoutBounds_sync:
  "internalValidate (array (withoutBounds options)) v vo p =
   validateArray v ((arrayArgs options (deepOf options) p vo)\<lparr>minLength := None, maxLength := None\<rparr>)"
  by (simp add: arrayArgs_withoutBounds deepOf_def)

lemma array_withoutBounds_async:
  "internalValidateAsync (array (withoutBounds options)) v vo p =
   asyncValidateArray v ((arrayArgs options (deepOf options) p vo)\<lparr>minLength := None, maxLength := None\<rparr>)"
  by (simp add: arrayArgs_withoutBounds deepOf_def)

lemma array_sync: "internalValidate (array options) v vo p = validateArray v (arrayArgs options (deepOf options) p vo)"
  by (simp add: deepOf_def)

lemma array_async: "internalValidateAsync (array options) v vo p = asyncValidateArray v (arrayArgs options (deepOf options) p vo)"
  by (simp add: deepOf_def)

lemma minLengthOf_arrayArgs [simp]: "minLengthOf (arrayArgs options deep p vo) = minLengthOf options"
  by (simp add: minLengthOf_def)

lemma withinBounds_arrayArgs [simp]: "withinBounds (arrayArgs options deep p vo) n = withinBounds options n"
  by (simp add: withinBounds_def)

text \<open>
  C8, as stated, fails: in mode \<open>none\<close> an array without deep serialization is accepted
  before its length is looked at. Here \<open>minLength\<close> is 1 and the empty array passes both
  validators.
\<close>

theorem minLength_ignored_without_validation:
  "internalValidate
     (array \<lparr>items = None, minLength = Some 1, maxLength = None, maxEntriesToValidate = None\<rparr>)
     (JArr []) noneOptions [] (fresh 250)
   = (None, fresh 250) \<and>
   internalValidateAsync
     (array \<lparr>items = None, minLength = Some 1, maxLength = None, maxEntriesToValidate = None\<rparr>)
     (JArr []) noneOptions [] (fresh 250)
   = (None, fresh 250)"
  by (simp add: validateArray_def asyncValidateArray_def noneOptions_def)

text \<open>
  Mode \<open>none\<close> without deep serialization: both helpers accept every array at once, before
  any length test and before any element, and leave the state as it was.
\<close>

lemma validateArray_none_shallow:
  assumes "validation (validatorOptions args) = NoValidation" and "\<not> needsDeepSerDes args"
  shows "validateArray (JArr xs) args s = (None, s)"
  using assms by (simp add: validateArray_def)

lemma asyncValidateArray_none_shallow:
  assumes "validation (validatorOptions args) = NoValidation" and "\<not> needsDeepSerDes args"
  shows "asyncValidateArray (JArr xs) args s = (None, s)"
  using assms by (simp add: asyncValidateArray_def)

text \<open>
  C8, amended. The length tests of the synchronous validator run in the modes \<open>hard\<close> and
  \<open>soft\<close>, and in mode \<open>none\<close> when the items use custom serialization; those of the
  asynchronous validator run in the modes \<open>hard\<close> and \<open>soft\<close> only. Where they run, an
  array shorter than \<open>minLength\<close> is rejected with the too-short error, and an array that
  is long enough and longer than \<open>maxLength\<close> is rejected with the too-long error, a
  different one. In every mode an array within the bounds is treated exactly as by the
  same schema without bounds, so it is not rejected because of its length. In mode \<open>none\<close>
  the length is not looked at when the items use no custom serialization (both validators
  accept every array and leave the state as it was), and never by the asynchronous
  validator, which treats every array as the schema without bounds does. A result holds at
  most one error.
\<close>

theorem array_length_bounds:
  "((validation vo \<noteq> NoValidation \<or> deepOf options) \<and> length xs < minLengthOf options \<longrightarrow>
      fst (internalValidate (array options) (JArr xs) vo p s) =
        Some (TooShort (minLengthOf options) (length xs) p)) \<and>
   (validation vo \<noteq> NoValidation \<and> length xs < minLengthOf options \<longrightarrow>
      fst (internalValidateAsync (array options) (JArr xs) vo p s) =
        Some (TooShort (minLengthOf options) (length xs) p)) \<and>
   ((validation vo \<noteq> NoValidation \<or> deepOf options) \<and>
    minLengthOf options \<le> length xs \<and> maxLength options = Some m \<and> m < length xs \<longrightarrow>
      fst (internalValidate (array options) (JArr xs) vo p s) = Some (TooLong m (length xs) p)) \<and>
   (validation vo \<noteq> NoValidation \<and>
    minLengthOf options \<le> length xs \<and> maxLength options = Some m \<and> m < length xs \<longrightarrow>
      fst (internalValidateAsync (array options) (JArr xs) vo p s) = Some (TooLong m (length xs) p)) \<and>
   (withinBounds options (length xs) \<longrightarrow>
      internalValidate (array options) (JArr xs) vo p s =
        internalValidate (array (withoutBounds options)) (JArr xs) vo p s \<and>
      internalValidateAsync (array options) (JArr xs) vo p s =
        internalValidateAsync (array (withoutBounds options)) (JArr xs) vo p s) \<and>
   (validation vo = NoValidation \<and> \<not> deepOf options \<longrightarrow>
      internalValidate (array options) (JArr xs) vo p s = (None, s) \<and>
      internalValidateAsync (array options) (JArr xs) vo p s = (None, s)) \<and>
   (validation vo = NoValidation \<longrightarrow>
      internalValidateAsync (array options) (JArr xs) vo p s =
        internalValidateAsync (array (withoutBounds options)) (JArr xs) vo p s)"
proof (intro conjI impI)
  let ?args = "arrayArgs options (deepOf options) p vo"
  {
    assume h: "(validation vo \<noteq> NoValidation \<or> deepOf options) \<and> length xs < minLengthOf options"
    then have run: "needsDeepSerDes ?args \<or> validation (validatorOptions ?args) \<noteq> NoValidation"
      by auto
    have cb: "checkBounds ?args (length xs) =
        (if shouldStopOnFirstError ?args then Inl (TooShort (minLengthOf options) (length xs) p)
         else Inr (Some (TooShort (minLengthOf options) (length xs) p)))"
      using h checkBounds_tooShort[of "length xs" ?args] by simp
    show "fst (internalValidate (array options) (JArr xs) vo p s) =
          Some (TooShort (minLengthOf options) (length xs) p)"
      unfolding array_sync using run cb by (rule validateArray_bounds_error)
  }
  {
    assume h: "validation vo \<noteq> NoValidation \<and> length xs < minLengthOf options"
    then have mode: "validation (validatorOptions ?args) \<noteq> NoValidation" by simp
    have cb: "checkBounds ?args (length xs) =
        (if shouldStopOnFirstError ?args then Inl (TooShort (minLengthOf options) (length xs) p)
         else Inr (Some (TooShort (minLengthOf options) (length xs) p)))"
      using h checkBounds_tooShort[of "length xs" ?args] by simp
    show "fst (internalValidateAsync (array options) (JArr xs) vo p s) =
          Some (TooShort (minLengthOf options) (length xs) p)"
      unfolding array_async using mode cb by (rule asyncValidateArray_bounds_error)
  }
  {
    assume h: "(validation vo \<noteq> NoValidation \<or> deepOf options) \<and>
               minLengthOf options \<le> length xs \<and> maxLength options = Some m \<and> m < length xs"
    then have run: "needsDeepSerDes ?args \<or> validation (validatorOptions ?args) \<noteq> NoValidation"
      by auto
    have cb: "checkBounds ?args (length xs) =
        (if shouldStopOnFirstError ?args then Inl (TooLong m (length xs) p)
         else Inr (Some (TooLong m (length xs) p)))"
      using h checkBounds_tooLong[of ?args "length xs" m] by simp
    show "fst (internalValidate (array options) (JArr xs) vo p s) = Some (TooLong m (length xs) p)"
      unfolding array_sync using run cb by (rule validateArray_bounds_error)
  }
  {
    assume h: "validation vo \<noteq> NoValidation \<and>
               minLengthOf options \<le> length xs \<and> maxLength options = Some m \<and> m < length xs"
    then have mode: "validation (validatorOptions ?args) \<noteq> NoValidation" by simp
    have cb: "checkBounds ?args (length xs) =
        (if shouldStopOnFirstError ?args then Inl (TooLong m (length xs) p)
         else Inr (Some (TooLong m (length xs) p)))"
      using h checkBounds_tooLong[of ?args "length xs" m] by simp
    show "fst (internalValidateAsync (array options) (JArr xs) vo p s) = Some (TooLong m (length xs) p)"
      unfolding array_async using mode cb by (rule asyncValidateArray_bounds_error)
  }
  {
    assume "withinBounds options (length xs)"
    then have w: "withinBounds ?args (length xs)" by simp
    show "internalValidate (array options) (JArr xs) vo p s =
          internalValidate (array (withoutBounds options)) (JArr xs) vo p s"
      using validateArray_within_bounds[OF w, of s]
      by (simp only: array_withoutBounds_sync array_sync[of options])
    show "internalValidateAsync (array options) (JArr xs) vo p s =
          internalValidateAsync (array (withoutBounds options)) (JArr xs) vo p s"
      using asyncValidateArray_within_bounds[OF w, of s]
      by (simp only: array_withoutBounds_async array_async[of options])
  }
  {
    assume h: "validation vo = NoValidation \<and> \<not> deepOf options"
    then have a: "validation (validatorOptions ?args) = NoValidation" "\<not> needsDeepSerDes ?args"
      by simp_all
    show "internalValidate (array options) (JArr xs) vo p s = (None, s)"
      unfolding array_sync using a by (rule validateArray_none_shallow)
    show "internalValidateAsync (array options) (JArr xs) vo p s = (None, s)"
      unfolding array_async using a by (rule asyncValidateArray_none_shallow)
  }
  {
    assume "validation vo = NoValidation"
    then have a: "validation (validatorOptions ?args) = NoValidation" by simp
    show "internalValidateAsync (array options) (JArr xs) vo p s =
          internalValidateAsync (array (withoutBounds options)) (JArr xs) vo p s"
      using asyncValidateArray_no_validation[OF a, of xs s]
      by (simp only: array_withoutBounds_async array_async[of options])
  }
qed

text \<open>
  Strings between 2 and 4 in mode \<open>hard\<close>: one string is too short and five are too long,
  on both paths, and three numbers are treated as without the bounds. In mode \<open>none\<close> the
  array of one string passes both validators, the state untouched. Dates between 2 and 3,
  which use custom serialization, in mode \<open>none\<close>: one date is too short for the
  synchronous validator, and the asynchronous one treats it as without the bounds.
\<close>

theorem array_length_bounds_witness:
  "fst (internalValidate (array boundedStrings) (JArr [JStr ''a'']) hardOptions [] (fresh 250)) =
     Some (TooShort 2 1 []) \<and>
   fst (internalValidateAsync (array boundedStrings) (JArr [JStr ''a'']) hardOptions [] (fresh 250)) =
     Some (TooShort 2 1 []) \<and>
   fst (internalValidate (array boundedStrings)
          (JArr [JStr ''a'', JStr ''b'', JStr ''c'', JStr ''d'', JStr ''e'']) hardOptions [] (fresh 250)) =
     Some (TooLong 4 5 []) \<and>
   fst (internalValidateAsync (array boundedStrings)
          (JArr [JStr ''a'', JStr ''b'', JStr ''c'', JStr ''d'', JStr ''e'']) hardOptions [] (fresh 250)) =
     Some (TooLong 4 5 []) \<and>
   internalValidate (array boundedStrings) (JArr [JNum 1, JNum 2, JNum 3]) hardOptions [] (fresh 250) =
   internalValidate (array (withoutBounds boundedStrings)) (JArr [JNum 1, JNum 2, JNum 3])
     hardOptions [] (fresh 250) \<and>
   internalValidateAsync (array boundedStrings) (JArr [JNum 1, JNum 2, JNum 3]) hardOptions [] (fresh 250) =
   internalValidateAsync (array (withoutBounds boundedStrings)) (JArr [JNum 1, JNum 2, JNum 3])
     hardOptions [] (fresh 250) \<and>
   internalValidate (array boundedStrings) (JArr [JStr ''a'']) noneOptions [] (fresh 250) =
     (None, fresh 250) \<and>
   internalValidateAsync (array boundedStrings) (JArr [JStr ''a'']) noneOptions [] (fresh 250) =
     (None, fresh 250) \<and>
   fst (internalValidate (array boundedDates) (JArr [JStr ''2020-01-01'']) noneOptions [] (fresh 250)) =
     Some (TooShort 2 1 []) \<and>
   internalValidateAsync (array boundedDates) (JArr [JStr ''2020-01-01'']) noneOptions [] (fresh 250) =
   internalValidateAsync (array (withoutBounds boundedDates)) (JArr [JStr ''2020-01-01''])
     noneOptions [] (fresh 250)"
proof -
  have mode: "validation hardOptions \<noteq> NoValidation" "validation noneOptions = NoValidation"
    by (simp_all add: hardOptions_def noneOptions_def)
  have m: "minLengthOf boundedStrings = 2" "maxLength boundedStrings = Some 4"
    "minLengthOf boundedDates = 2" "maxLength boundedDates = Some 3"
    by (simp_all add: minLengthOf_def boundedStrings_def boundedDates_def)
  have d: "\<not> deepOf boundedStrings" "deepOf boundedDates"
    by (simp_all add: deepOf_def boundedStrings_def boundedDates_def stringSchema_def dateSchema_def
          leaf_def)
  have len: "length [JStr ''a''] = 1" "length [JStr ''2020-01-01''] = 1"
    "length [JStr ''a'', JStr ''b'', JStr ''c'', JStr ''d'', JStr ''e''] = 5"
    "length [JNum 1, JNum 2, JNum 3] = 3"
    by simp_all
  have ord: "(1::nat) < 2" "(2::nat) \<le> 5" "(4::nat) < 5" by simp_all
  have w: "withinBounds boundedStrings 3"
    by (simp add: withinBounds_def boundedStrings_def)
  have short:
    "fst (internalValidate (array boundedStrings) (JArr [JStr ''a'']) hardOptions [] (fresh 250)) =
       Some (TooShort 2 1 []) \<and>
     fst (internalValidateAsync (array boundedStrings) (JArr [JStr ''a'']) hardOptions [] (fresh 250)) =
       Some (TooShort 2 1 [])"
    using array_length_bounds[where vo=hardOptions and xs="[JStr ''a'']" and options=boundedStrings
          and m=4 and p="[]" and s="fresh 250"] mode ord
    unfolding m len by blast
  have long:
    "fst (internalValidate (array boundedStrings)
            (JArr [JStr ''a'', JStr ''b'', JStr ''c'', JStr ''d'', JStr ''e'']) hardOptions [] (fresh 250)) =
       Some (TooLong 4 5 []) \<and>
     fst (internalValidateAsync (array boundedStrings)
            (JArr [JStr ''a'', JStr ''b'', JStr ''c'', JStr ''d'', JStr ''e'']) hardOptions [] (fresh 250)) =
       Some (TooLong 4 5 [])"
    using array_length_bounds[where vo=hardOptions
          and xs="[JStr ''a'', JStr ''b'', JStr ''c'', JStr ''d'', JStr ''e'']"
          and options=boundedStrings and m=4 and p="[]" and s="fresh 250"] mode ord
    unfolding m len by blast
  have within:
    "internalValidate (array boundedStrings) (JArr [JNum 1, JNum 2, JNum 3]) hardOptions [] (fresh 250) =
     internalValidate (array (withoutBounds boundedStrings)) (JArr [JNum 1, JNum 2, JNum 3])
       hardOptions [] (fresh 250) \<and>
     internalValidateAsync (array boundedStrings) (JArr [JNum 1, JNum 2, JNum 3]) hardOptions [] (fresh 250) =
     internalValidateAsync (array (withoutBounds boundedStrings)) (JArr [JNum 1, JNum 2, JNum 3])
       hardOptions [] (fresh 250)"
    using array_length_bounds[where vo=hardOptions and xs="[JNum 1, JNum 2, JNum 3]"
          and options=boundedStrings and m=4 and p="[]" and s="fresh 250"] w
    unfolding len by blast
  have none:
    "internalValidate (array boundedStrings) (JArr [JStr ''a'']) noneOptions [] (fresh 250) =
       (None, fresh 250) \<and>
     internalValidateAsync (array boundedStrings) (JArr [JStr ''a'']) noneOptions [] (fresh 250) =
       (None, fresh 250)"
    using array_length_bounds[where vo=noneOptions and xs="[JStr ''a'']" and options=boundedStrings
          and m=4 and p="[]" and s="fresh 250"] mode d
    by blast
  have deep:
    "fst (internalValidate (array boundedDates) (JArr [JStr ''2020-01-01'']) noneOptions [] (fresh 250)) =
       Some (TooShort 2 1 []) \<and>
     internalValidateAsync (array boundedDates) (JArr [JStr ''2020-01-01'']) noneOptions [] (fresh 250) =
     internalValidateAsync (array (withoutBounds boundedDates)) (JArr [JStr ''2020-01-01''])
       noneOptions [] (fresh 250)"
    using array_length_bounds[where vo=noneOptions and xs="[JStr ''2020-01-01'']" and options=boundedDates
          and m=3 and p="[]" and s="fresh 250"] mode d ord
    unfolding m len by blast
  show ?thesis
    using short long within none deep by blast
qed

text \<open>
  C9. In mode \<open>none\<close>, with items that use custom serialization, the asynchronous
  validator behaves on every array exactly as the same schema without \<open>minLength\<close> and
  \<open>maxLength\<close> does: it reports no violation of them. The synchronous validator reports
  the too-short or too-long error on the same input.
\<close>

theorem async_array_skips_bounds_without_validation:
  assumes "items options = Some it" and "usesCustomSerDes it" and "validation vo = NoValidation"
  shows
    "internalValidateAsync (array options) (JArr xs) vo p s =
       internalValidateAsync (array (withoutBounds options)) (JArr xs) vo p s \<and>
     (length xs < minLengthOf options \<longrightarrow>
        fst (internalValidate (array options) (JArr xs) vo p s) =
          Some (TooShort (minLengthOf options) (length xs) p)) \<and>
     (minLengthOf options \<le> length xs \<and> maxLength options = Some m \<and> m < length xs \<longrightarrow>
        fst (internalValidate (array options) (JArr xs) vo p s) = Some (TooLong m (length xs) p))"
proof (intro conjI impI)
  let ?args = "arrayArgs options (deepOf options) p vo"
  have deep: "needsDeepSerDes ?args" using assms(1,2) by (simp add: deepOf_def)
  show "internalValidateAsync (array options) (JArr xs) vo p s =
       internalValidateAsync (array (withoutBounds options)) (JArr xs) vo p s"
    using asyncValidateArray_no_validation[of ?args xs s] assms(3)
    by (simp only: array_withoutBounds_async array_async[of options] arrayArgs_sel)
  {
    assume "length xs < minLengthOf options"
    then have cb: "checkBounds ?args (length xs) =
        (if shouldStopOnFirstError ?args then Inl (TooShort (minLengthOf options) (length xs) p)
         else Inr (Some (TooShort (minLengthOf options) (length xs) p)))"
      using checkBounds_tooShort[of "length xs" ?args] by simp
    show "fst (internalValidate (array options) (JArr xs) vo p s) =
          Some (TooShort (minLengthOf options) (length xs) p)"
      unfolding array_sync using deep cb by (intro validateArray_bounds_error) auto
  }
  {
    assume "minLengthOf options \<le> length xs \<and> maxLength options = Some m \<and> m < length xs"
    then have cb: "checkBounds ?args (length xs) =
        (if shouldStopOnFirstError ?args then Inl (TooLong m (length xs) p)
         else Inr (Some (TooLong m (length xs) p)))"
      using checkBounds_tooLong[of ?args "length xs" m] by simp
    show "fst (internalValidate (array options) (JArr xs) vo p s) = Some (TooLong m (length xs) p)"
      unfolding array_sync using deep cb by (intro validateArray_bounds_error) auto
  }
qed

theorem async_array_skips_bounds_without_validation_witness:
  "internalValidateAsync (array boundedDates) (JArr [JStr ''2020-01-01'']) noneOptions [] (fresh 250) =
   internalValidateAsync (array (withoutBounds boundedDates)) (JArr [JStr ''2020-01-01''])
     noneOptions [] (fresh 250) \<and>
   fst (internalValidate (array boundedDates) (JArr [JStr ''2020-01-01'']) noneOptions [] (fresh 250)) =
     Some (TooShort 2 1 []) \<and>
   fst (internalValidate (array boundedDates)
          (JArr [JStr ''2020-01-01'', JStr ''2020-01-02'', JStr ''2020-01-03'', JStr ''2020-01-04''])
          noneOptions [] (fresh 250)) =
     Some (TooLong 3 4 [])"
proof -
  have h: "items boundedDates = Some dateSchema" "usesCustomSerDes dateSchema"
    "validation noneOptions = NoValidation"
    by (simp_all add: boundedDates_def dateSchema_def leaf_def noneOptions_def)
  have m: "minLengthOf boundedDates = 2" "maxLength boundedDates = Some 3"
    by (simp_all add: minLengthOf_def boundedDates_def)
  show ?thesis
    using async_array_skips_bounds_without_validation[OF h, where xs="[JStr ''2020-01-01'']"
          and m=3 and p="[]" and s="fresh 250"]
      async_array_skips_bounds_without_validation[OF h,
        where xs="[JStr ''2020-01-01'', JStr ''2020-01-02'', JStr ''2020-01-03'', JStr ''2020-01-04'']"
          and m=3 and p="[]" and s="fresh 250"]
    by (simp only: m list.size length_Cons) simp
qed

section \<open>The upgraded schema: new first, then old\<close>

lemma upgraded_sel [simp]:
  "internalValidate (upgraded n old new d) = upgradedValidate n old new d"
  "internalValidateAsync (upgraded n old new d) = upgradedValidateAsync n old new d"
  "estimatedValidationTimeComplexity (upgraded n old new d) =
     estimatedValidationTimeComplexity old + estimatedValidationTimeComplexity new"
  "usesCustomSerDes (upgraded n old new d) = (usesCustomSerDes old \<or> usesCustomSerDes new)"
  by (simp_all add: upgraded_def)

lemma upgradedValidate_eq:
  "upgradedValidate n old new d v vo p s =
     (if fst (internalValidate new v vo p s) = None then (None, snd (internalValidate new v vo p s))
      else if fst (internalValidate old v vo p (snd (internalValidate new v vo p s))) = None
      then (None, warnOnce n d v (snd (internalValidate old v vo p (snd (internalValidate new v vo p s)))))
      else internalValidate old v vo p (snd (internalValidate new v vo p s)))"
  by (simp add: upgradedValidate_def Let_def split: prod.splits)

lemma upgradedValidateAsync_eq:
  "upgradedValidateAsync n old new d v vo p s =
     (let t = asyncTimeComplexityThreshold s in
      if fst (pickValidator t new v vo p s) = None then (None, snd (pickValidator t new v vo p s))
      else if fst (pickValidator t old v vo p (snd (pickValidator t new v vo p s))) = None
      then (None, warnOnce n d v (snd (pickValidator t old v vo p (snd (pickValidator t new v vo p s)))))
      else pickValidator t old v vo p (snd (pickValidator t new v vo p s)))"
  by (simp add: upgradedValidateAsync_def Let_def split: prod.splits)

text \<open>
  C4. The upgraded schema validates the new schema first. When the new schema accepts, the
  result is no error and the state is the one the new schema's validation left: the old
  schema is not consulted and no warning is added. Otherwise the old schema is validated
  next, and the outcome (error or none) is the old schema's; when it rejects too, the
  result is exactly the old schema's error and state, the new schema's error being
  dropped. The asynchronous validator does the same with the validator it picks for each
  child by cost.
\<close>

theorem upgraded_validates_new_then_old:
  "(fst (internalValidate new v vo p s) = None \<longrightarrow>
      internalValidate (upgraded n old new d) v vo p s = (None, snd (internalValidate new v vo p s))) \<and>
   (fst (internalValidate new v vo p s) \<noteq> None \<longrightarrow>
      fst (internalValidate (upgraded n old new d) v vo p s) =
        fst (internalValidate old v vo p (snd (internalValidate new v vo p s)))) \<and>
   (fst (internalValidate new v vo p s) \<noteq> None \<and>
    fst (internalValidate old v vo p (snd (internalValidate new v vo p s))) \<noteq> None \<longrightarrow>
      internalValidate (upgraded n old new d) v vo p s =
        internalValidate old v vo p (snd (internalValidate new v vo p s))) \<and>
   (fst (pickValidator (asyncTimeComplexityThreshold s) new v vo p s) = None \<longrightarrow>
      internalValidateAsync (upgraded n old new d) v vo p s =
        (None, snd (pickValidator (asyncTimeComplexityThreshold s) new v vo p s))) \<and>
   (fst (pickValidator (asyncTimeComplexityThreshold s) new v vo p s) \<noteq> None \<longrightarrow>
      fst (internalValidateAsync (upgraded n old new d) v vo p s) =
        fst (pickValidator (asyncTimeComplexityThreshold s) old v vo p
               (snd (pickValidator (asyncTimeComplexityThreshold s) new v vo p s)))) \<and>
   (fst (pickValidator (asyncTimeComplexityThreshold s) new v vo p s) \<noteq> None \<and>
    fst (pickValidator (asyncTimeComplexityThreshold s) old v vo p
           (snd (pickValidator (asyncTimeComplexityThreshold s) new v vo p s))) \<noteq> None \<longrightarrow>
      internalValidateAsync (upgraded n old new d) v vo p s =
        pickValidator (asyncTimeComplexityThreshold s) old v vo p
          (snd (pickValidator (asyncTimeComplexityThreshold s) new v vo p s)))"
  by (simp add: upgradedValidate_eq upgradedValidateAsync_eq Let_def)

lemma leaf_sel [simp]:
  "internalValidate (leaf c sd chk) = leafValidate chk"
  "internalValidateAsync (leaf c sd chk) = leafValidate chk"
  "estimatedValidationTimeComplexity (leaf c sd chk) = c"
  "usesCustomSerDes (leaf c sd chk) = sd"
  by (simp_all add: leaf_def)

lemma pickValidator_leaf [simp]: "pickValidator t (leaf c sd chk) = leafValidate chk"
  by (simp add: pickValidator_def)

theorem upgraded_validates_new_then_old_witness:
  "internalValidate userIdUpgrade (JStr ''u1'') hardOptions [] (fresh 250) = (None, fresh 250) \<and>
   internalValidate userIdUpgrade (JBool True) hardOptions [] (fresh 250) =
     (Some (LeafError ''Expected number'' []), fresh 250) \<and>
   internalValidateAsync userIdUpgrade (JStr ''u1'') hardOptions [] (fresh 250) = (None, fresh 250) \<and>
   internalValidateAsync userIdUpgrade (JBool True) hardOptions [] (fresh 250) =
     (Some (LeafError ''Expected number'' []), fresh 250)"
  using upgraded_validates_new_then_old[where new=stringSchema and old=numberSchema
      and v="JStr ''u1''" and vo=hardOptions and p="[]" and s="fresh 250"
      and n="''userId''" and d=None]
    upgraded_validates_new_then_old[where new=stringSchema and old=numberSchema
      and v="JBool True" and vo=hardOptions and p="[]" and s="fresh 250"
      and n="''userId''" and d=None]
  by (simp add: userIdUpgrade_def stringSchema_def numberSchema_def leafValidate_def
        stringCheck_def numberCheck_def)

section \<open>One warning for each unique name\<close>

lemma warningsFor_append [simp]:
  "warningsFor n (t @ u) = warningsFor n t + warningsFor n u"
  by (induction n t rule: warningsFor.induct) simp_all

lemma warnInv_fresh: "warnInv D (fresh t)"
  by (simp add: warnInv_def fresh_def)

lemma isWarningOf_mono: "isWarningOf D e \<Longrightarrow> D \<subseteq> D' \<Longrightarrow> isWarningOf D' e"
  by (cases e) (auto simp: isWarningOf_def)

lemma warnInv_mono: "warnInv D s \<Longrightarrow> D \<subseteq> D' \<Longrightarrow> warnInv D' s"
  unfolding warnInv_def using isWarningOf_mono by blast

lemma warnInv_addEvent:
  assumes "warnInv D s" and "\<And>n msg. e \<noteq> Warned n msg"
  shows "warnInv D (addEvent e s)"
  using assms by (cases e) (auto simp: warnInv_def addEvent_def isWarningOf_def)

text \<open>The template string of the code is the text of the specification.\<close>

lemma deprecationMessage_text:
  "deprecationMessage n d = warningText n (removalTime d)"
  by (simp add: deprecationMessage_def warningText_def removalTime_def split: option.splits)

lemma warnInv_warnOnce:
  assumes "warnInv D s" and "(n, d) \<in> D"
  shows "warnInv D (warnOnce n d v s)"
  using assms
  by (auto simp: warnInv_def warnOnce_def addEvent_def isWarningOf_def deprecationMessage_text)

lemma warnOnce_count:
  assumes "warnInv D s" and "v \<noteq> JUndefined"
  shows "warningsFor n (trace (warnOnce n d v s)) = 1"
  using assms by (auto simp: warnInv_def warnOnce_def addEvent_def)

text \<open>
  What \<open>warnOnce\<close> does to the history on a value that is not \<open>undefined\<close>: the warning of
  this schema, with its own deadline, when the name has no warning yet; nothing otherwise.
\<close>

lemma warnOnce_trace:
  assumes "warnInv D s" and "v \<noteq> JUndefined"
  shows "trace (warnOnce n d v s) =
         trace s @ (if warningsFor n (trace s) = 0
                    then [Warned n (warningText n (removalTime d))] else [])"
proof -
  have "warningsFor n (trace s) = (if n \<in> alreadyLogUpgradedWarnings s then 1 else 0)"
    using assms(1) by (simp add: warnInv_def)
  then show ?thesis
    using assms(2) by (simp add: warnOnce_def addEvent_def deprecationMessage_text)
qed

lemma keepsInv_pick:
  "keepsInv D sc \<Longrightarrow> warnInv D s \<Longrightarrow> warnInv D (snd (pickValidator t sc v vo p s))"
  by (simp add: keepsInv_def pickValidator_def)

lemma keepsInv_leaf: "keepsInv D (leaf c sd chk)"
  by (auto simp: keepsInv_def leafValidate_def split: option.splits)

lemma keepsInv_upgraded:
  assumes "keepsInv D old" and "keepsInv D new" and "(n, d) \<in> D"
  shows "keepsInv D (upgraded n old new d)"
  unfolding keepsInv_def
proof (intro allI impI conjI)
  fix v vo p s assume s: "warnInv D s"
  have 1: "warnInv D (snd (internalValidate new v vo p s))"
    using assms(2) s by (simp add: keepsInv_def)
  then have 2: "warnInv D (snd (internalValidate old v vo p (snd (internalValidate new v vo p s))))"
    using assms(1) by (simp add: keepsInv_def)
  show "warnInv D (snd (internalValidate (upgraded n old new d) v vo p s))"
    using 1 2 by (simp add: upgradedValidate_eq warnInv_warnOnce[OF _ assms(3)])
  let ?t = "asyncTimeComplexityThreshold s"
  have 3: "warnInv D (snd (pickValidator ?t new v vo p s))"
    using assms(2) s by (rule keepsInv_pick)
  have 4: "warnInv D (snd (pickValidator ?t old v vo p (snd (pickValidator ?t new v vo p s))))"
    using assms(1) 3 by (rule keepsInv_pick)
  show "warnInv D (snd (internalValidateAsync (upgraded n old new d) v vo p s))"
    using 3 4 by (simp add: upgradedValidateAsync_eq warnInv_warnOnce[OF _ assms(3)] Let_def)
qed

lemma syncItem_inv:
  "keepsInv D it \<Longrightarrow> warnInv D s \<Longrightarrow> warnInv D (snd (syncItem it args x index s))"
  by (simp add: syncItem_def keepsInv_def warnInv_addEvent)

lemma asyncItem_inv:
  "keepsInv D it \<Longrightarrow> warnInv D s \<Longrightarrow> warnInv D (snd (asyncItem it args t x index s))"
  by (simp add: asyncItem_def keepsInv_pick warnInv_addEvent)

lemma validateItems_inv:
  assumes "keepsInv D it"
  shows "warnInv D s \<Longrightarrow> warnInv D (snd (validateItems it args xs index errorResult s))"
  by (induction xs arbitrary: index errorResult s)
     (simp_all add: validateItems_Cons syncItem_inv[OF assms])

lemma chunkItems_inv:
  assumes "keepsInv D it"
  shows "warnInv D s \<Longrightarrow>
         warnInv D (snd (snd (chunkItems it args t xs chunkStartIndex index errorResult s)))"
proof (induction "length xs - index" arbitrary: index s errorResult rule: less_induct)
  case less
  show ?case
    using less.prems
    by (subst chunkItems_unfold) (auto intro!: less asyncItem_inv[OF assms])
qed

lemma consultShouldYield_inv: "warnInv D s \<Longrightarrow> warnInv D (consultShouldYield vo s)"
  by (simp add: consultShouldYield_def Let_def warnInv_addEvent)

lemma processChunk_inv:
  "keepsInv D it \<Longrightarrow> warnInv D s \<Longrightarrow>
   warnInv D (snd (snd (processChunk it args t xs chunkStartIndex errorResult s)))"
  by (simp add: processChunk_def chunkItems_inv consultShouldYield_inv)

lemma asyncChunks_inv:
  assumes "keepsInv D it"
  shows "warnInv D s \<Longrightarrow> warnInv D (snd (asyncChunks it args t xs chunkStartIndex errorResult s))"
proof (induction "length xs - chunkStartIndex" arbitrary: chunkStartIndex s errorResult rule: less_induct)
  case less
  have pc: "warnInv D (snd (snd (processChunk it args t xs chunkStartIndex errorResult s)))"
    using assms less.prems by (rule processChunk_inv)
  show ?case
    using less.prems pc
    by (subst asyncChunks_unfold)
       (auto intro!: less dest: chunkSize_Finite_pos split: js_number.splits)
qed

lemma keepsInv_array:
  assumes "\<And>it. items options = Some it \<Longrightarrow> keepsInv D it"
  shows "keepsInv D (array options)"
  unfolding keepsInv_def
  using assms
  by (auto simp: validateArray_def asyncValidateArray_def validateItems_inv asyncChunks_inv
      split: jsval.splits sum.splits option.splits)

lemma keepsInv_build: "upgradesOf S \<subseteq> D \<Longrightarrow> keepsInv D (build S)"
proof (induction S)
  case (LeafE c sd chk)
  show ?case by (simp add: keepsInv_leaf)
next
  case (ArrayE its minL maxL maxE)
  show ?case
    unfolding build.simps
  proof (rule keepsInv_array)
    fix it
    assume "items \<lparr>items = map_option build its, minLength = minL, maxLength = maxL,
                   maxEntriesToValidate = maxE\<rparr> = Some it"
    then obtain S' where S': "its = Some S'" "it = build S'" by auto
    then have "upgradesOf S' \<subseteq> D" using ArrayE.prems by simp
    then show "keepsInv D it" using ArrayE.IH S' by simp
  qed
next
  case (UpgradedE n old new d)
  then show ?case by (simp add: keepsInv_upgraded)
qed

lemma warnInv_run: "warnInv D s \<Longrightarrow> requested rs \<subseteq> D \<Longrightarrow> warnInv D (run rs s)"
proof (induction rs arbitrary: s)
  case Nil
  then show ?case by simp
next
  case (Cons r rs)
  obtain isAsync S v vo p where r: "r = (isAsync, S, v, vo, p)" by (cases r) auto
  have sub: "upgradesOf S \<subseteq> D" "requested rs \<subseteq> D"
    using Cons.prems(2) r by (auto simp: requested_def)
  have "keepsInv D (build S)" using sub(1) by (rule keepsInv_build)
  then show ?case
    using Cons.IH[OF _ sub(2)] Cons.prems(1) r by (auto simp: keepsInv_def)
qed

lemma warnOnce_undefined: "warnOnce n d JUndefined s = s"
  by (simp add: warnOnce_def)

lemma warnInv_le_one: "warnInv D s \<Longrightarrow> warningsFor m (trace s) \<le> 1"
  by (simp add: warnInv_def)

text \<open>
  C5. After any sequence of validations in a fresh process, no unique name has more than
  one warning, and every warning comes from an upgraded schema among those validated: it
  carries that schema's unique name and the text built from the name and from that
  schema's own deadline, \<open>after <deadline>\<close> when it has one and \<open>soon\<close> when it has none.
  From such a state, validating an upgraded schema \<open>n\<close> with deadline \<open>d\<close> on a value that
  is not \<open>undefined\<close>, rejected by the new schema and accepted by the old one, leaves
  exactly one warning for \<open>n\<close>: when \<open>n\<close> had no warning yet, the history grows by the one
  event \<open>Warned n\<close> with the text for \<open>n\<close> and \<open>d\<close>, and when it had one, by nothing. In
  every other case (the new schema accepts, the old one rejects, or the value is
  \<open>undefined\<close>) the upgraded schema adds nothing to what its children did. Synchronous and
  asynchronous validators alike.
\<close>

theorem deprecation_warning_once:
  "(\<forall>m. warningsFor m (trace (run rs (fresh t))) \<le> 1) \<and>
   (\<forall>e \<in> set (trace (run rs (fresh t))). isWarningOf (requested rs) e) \<and>
   (let s = run rs (fresh t);
        U = upgraded n (build old) (build new) d;
        newResult = internalValidate (build new) v vo p s;
        oldResult = internalValidate (build old) v vo p (snd newResult);
        after = snd (internalValidate U v vo p s)
    in (v \<noteq> JUndefined \<and> fst newResult \<noteq> None \<and> fst oldResult = None \<longrightarrow>
          warningsFor n (trace after) = 1 \<and>
          trace after =
            trace (snd oldResult) @
              (if warningsFor n (trace (snd oldResult)) = 0
               then [Warned n (warningText n (removalTime d))] else [])) \<and>
       (\<not> (v \<noteq> JUndefined \<and> fst newResult \<noteq> None \<and> fst oldResult = None) \<longrightarrow>
          after = (if fst newResult = None then snd newResult else snd oldResult))) \<and>
   (let s = run rs (fresh t);
        U = upgraded n (build old) (build new) d;
        newResult = pickValidator (asyncTimeComplexityThreshold s) (build new) v vo p s;
        oldResult = pickValidator (asyncTimeComplexityThreshold s) (build old) v vo p (snd newResult);
        after = snd (internalValidateAsync U v vo p s)
    in (v \<noteq> JUndefined \<and> fst newResult \<noteq> None \<and> fst oldResult = None \<longrightarrow>
          warningsFor n (trace after) = 1 \<and>
          trace after =
            trace (snd oldResult) @
              (if warningsFor n (trace (snd oldResult)) = 0
               then [Warned n (warningText n (removalTime d))] else [])) \<and>
       (\<not> (v \<noteq> JUndefined \<and> fst newResult \<noteq> None \<and> fst oldResult = None) \<longrightarrow>
          after = (if fst newResult = None then snd newResult else snd oldResult)))"
proof (intro conjI)
  let ?s = "run rs (fresh t)"
  let ?D = "requested rs \<union> upgradesOf old \<union> upgradesOf new"
  have inv0: "warnInv (requested rs) ?s"
    by (rule warnInv_run[OF warnInv_fresh subset_refl])
  then have inv: "warnInv ?D ?s" by (rule warnInv_mono) auto
  have kn: "keepsInv ?D (build new)" by (rule keepsInv_build) auto
  have ko: "keepsInv ?D (build old)" by (rule keepsInv_build) auto
  show "\<forall>m. warningsFor m (trace ?s) \<le> 1"
    using warnInv_le_one[OF inv0] by blast
  show "\<forall>e \<in> set (trace ?s). isWarningOf (requested rs) e"
    using inv0 by (simp add: warnInv_def)
  let ?rn = "internalValidate (build new) v vo p ?s"
  let ?ro = "internalValidate (build old) v vo p (snd ?rn)"
  have "warnInv ?D (snd ?rn)"
    using kn inv by (simp add: keepsInv_def)
  then have io: "warnInv ?D (snd ?ro)"
    using ko by (simp add: keepsInv_def)
  have c: "v \<noteq> JUndefined \<Longrightarrow> warningsFor n (trace (warnOnce n d v (snd ?ro))) = 1"
    using io by (rule warnOnce_count)
  have tr: "v \<noteq> JUndefined \<Longrightarrow>
      trace (warnOnce n d v (snd ?ro)) =
        trace (snd ?ro) @
          (if warningsFor n (trace (snd ?ro)) = 0
           then [Warned n (warningText n (removalTime d))] else [])"
    using io by (rule warnOnce_trace)
  show "let s = run rs (fresh t);
        U = upgraded n (build old) (build new) d;
        newResult = internalValidate (build new) v vo p s;
        oldResult = internalValidate (build old) v vo p (snd newResult);
        after = snd (internalValidate U v vo p s)
    in (v \<noteq> JUndefined \<and> fst newResult \<noteq> None \<and> fst oldResult = None \<longrightarrow>
          warningsFor n (trace after) = 1 \<and>
          trace after =
            trace (snd oldResult) @
              (if warningsFor n (trace (snd oldResult)) = 0
               then [Warned n (warningText n (removalTime d))] else [])) \<and>
       (\<not> (v \<noteq> JUndefined \<and> fst newResult \<noteq> None \<and> fst oldResult = None) \<longrightarrow>
          after = (if fst newResult = None then snd newResult else snd oldResult))"
    unfolding Let_def upgraded_sel upgradedValidate_eq
    using c tr by (cases "v = JUndefined") (simp_all add: warnOnce_undefined)
  let ?t = "asyncTimeComplexityThreshold ?s"
  let ?pn = "pickValidator ?t (build new) v vo p ?s"
  let ?po = "pickValidator ?t (build old) v vo p (snd ?pn)"
  have "warnInv ?D (snd ?pn)"
    using kn inv by (rule keepsInv_pick)
  with ko have ip: "warnInv ?D (snd ?po)"
    by (rule keepsInv_pick)
  have c': "v \<noteq> JUndefined \<Longrightarrow> warningsFor n (trace (warnOnce n d v (snd ?po))) = 1"
    using ip by (rule warnOnce_count)
  have tr': "v \<noteq> JUndefined \<Longrightarrow>
      trace (warnOnce n d v (snd ?po)) =
        trace (snd ?po) @
          (if warningsFor n (trace (snd ?po)) = 0
           then [Warned n (warningText n (removalTime d))] else [])"
    using ip by (rule warnOnce_trace)
  show "let s = run rs (fresh t);
        U = upgraded n (build old) (build new) d;
        newResult = pickValidator (asyncTimeComplexityThreshold s) (build new) v vo p s;
        oldResult = pickValidator (asyncTimeComplexityThreshold s) (build old) v vo p (snd newResult);
        after = snd (internalValidateAsync U v vo p s)
    in (v \<noteq> JUndefined \<and> fst newResult \<noteq> None \<and> fst oldResult = None \<longrightarrow>
          warningsFor n (trace after) = 1 \<and>
          trace after =
            trace (snd oldResult) @
              (if warningsFor n (trace (snd oldResult)) = 0
               then [Warned n (warningText n (removalTime d))] else [])) \<and>
       (\<not> (v \<noteq> JUndefined \<and> fst newResult \<noteq> None \<and> fst oldResult = None) \<longrightarrow>
          after = (if fst newResult = None then snd newResult else snd oldResult))"
    unfolding Let_def upgraded_sel upgradedValidateAsync_eq
    using c' tr' by (cases "v = JUndefined") (simp_all add: warnOnce_undefined)
qed

text \<open>
  The scenario of the specification, \<open>userId\<close> upgraded from number to string. A number
  validated in a fresh process against the schema with the deadline \<open>2030-01-01\<close> logs the
  one warning that ends in \<open>after 2030-01-01.\<close>, on either path. After a first validation
  against the schema without a deadline, which logged the warning that ends in \<open>soon.\<close>,
  a number validated against the schema with the deadline logs nothing more, and a string
  leaves the state as it is.
\<close>

theorem deprecation_warning_once_witness:
  "trace (snd (internalValidate (build userIdUntil) (JNum 42) hardOptions [] (fresh 250))) =
     [Warned ''userId''
        ''[DEPRECATION] The schema for userId has been upgraded and legacy support will be removed after 2030-01-01.''] \<and>
   trace (snd (internalValidateAsync (build userIdUntil) (JNum 42) hardOptions [] (fresh 250))) =
     [Warned ''userId''
        ''[DEPRECATION] The schema for userId has been upgraded and legacy support will be removed after 2030-01-01.''] \<and>
   trace (run [(False, userIdExpr, JNum 42, hardOptions, [])] (fresh 250)) =
     [Warned ''userId''
        ''[DEPRECATION] The schema for userId has been upgraded and legacy support will be removed soon.''] \<and>
   trace (snd (internalValidate (build userIdUntil) (JNum 42) hardOptions []
        (run [(False, userIdExpr, JNum 42, hardOptions, [])] (fresh 250)))) =
     [Warned ''userId''
        ''[DEPRECATION] The schema for userId has been upgraded and legacy support will be removed soon.''] \<and>
   trace (snd (internalValidateAsync (build userIdUntil) (JNum 42) hardOptions []
        (run [(False, userIdExpr, JNum 42, hardOptions, [])] (fresh 250)))) =
     [Warned ''userId''
        ''[DEPRECATION] The schema for userId has been upgraded and legacy support will be removed soon.''] \<and>
   snd (internalValidate (build userIdUntil) (JStr ''u1'') hardOptions []
        (run [(False, userIdExpr, JNum 42, hardOptions, [])] (fresh 250))) =
     run [(False, userIdExpr, JNum 42, hardOptions, [])] (fresh 250)"
proof -
  have first:
    "run [(False, userIdExpr, JNum 42, hardOptions, [])] (fresh 250) =
       \<lparr>asyncTimeComplexityThreshold = 250, alreadyLogUpgradedWarnings = {''userId''},
        trace = [Warned ''userId'' (warningText ''userId'' ''soon'')]\<rparr>"
    by (simp add: userIdExpr_def upgradedValidate_eq warnOnce_def addEvent_def fresh_def
          leafValidate_def stringCheck_def numberCheck_def deprecationMessage_def warningText_def)
  show ?thesis
    using deprecation_warning_once[where rs="[]"
        and t=250 and n="''userId''" and old="LeafE 1 False numberCheck"
        and new="LeafE 1 False stringCheck" and d="Some ''2030-01-01''" and v="JNum 42"
        and vo=hardOptions and p="[]"]
      deprecation_warning_once[where rs="[(False, userIdExpr, JNum 42, hardOptions, [])]"
        and t=250 and n="''userId''" and old="LeafE 1 False numberCheck"
        and new="LeafE 1 False stringCheck" and d="Some ''2030-01-01''" and v="JNum 42"
        and vo=hardOptions and p="[]"]
      deprecation_warning_once[where rs="[(False, userIdExpr, JNum 42, hardOptions, [])]"
        and t=250 and n="''userId''" and old="LeafE 1 False numberCheck"
        and new="LeafE 1 False stringCheck" and d="Some ''2030-01-01''" and v="JStr ''u1''"
        and vo=hardOptions and p="[]"]
    unfolding first
    by (simp add: Let_def userIdUntil_def leafValidate_def stringCheck_def numberCheck_def
          fresh_def warningText_def removalTime_def)
qed

section \<open>Valid values are accepted on both paths\<close>

lemma entry_valid:
  assumes "\<forall>x \<in> set (entriesToValidate it maxE xs). P x"
    and "i < length xs"
    and "\<not> reachedMaxEntries
           (arrayArgs \<lparr>items = Some (build it), minLength = minL, maxLength = maxL,
                       maxEntriesToValidate = maxE\<rparr> (usesCustomSerDes (build it)) p vo) i"
  shows "P (xs ! i)"
proof (cases "usesCustomSerDes (build it)")
  case True
  then show ?thesis using assms(1,2) by (simp add: entriesToValidate_def)
next
  case False
  show ?thesis
  proof (cases maxE)
    case None
    then show ?thesis using assms(1,2) False by (simp add: entriesToValidate_def)
  next
    case (Some k)
    then have "i < k" using assms(3) False by (simp add: reachedMaxEntries_def)
    then have "xs ! i \<in> set (take k xs)"
      using assms(2) by (auto simp: in_set_conv_nth intro!: exI[where x=i])
    then show ?thesis using assms(1) False Some by (simp add: entriesToValidate_def)
  qed
qed

lemma validateArray_accepts:
  assumes "withinBounds args (length xs)"
    and "\<And>it. items args = Some it \<Longrightarrow> fst (validateItems it args xs 0 None s) = None"
  shows "fst (validateArray (JArr xs) args s) = None"
  using assms(2) by (simp add: validateArray_def checkBounds_within[OF assms(1)] split: option.splits)

lemma asyncValidateArray_accepts:
  assumes "withinBounds args (length xs)"
    and "\<And>it. items args = Some it \<Longrightarrow>
           fst (asyncChunks it args (asyncTimeComplexityThreshold s) xs 0 None s) = None"
  shows "fst (asyncValidateArray (JArr xs) args s) = None"
  using assms(2)
  by (simp add: asyncValidateArray_def checkBounds_within[OF assms(1)] split: option.splits)

lemma reachedMaxEntries_mono:
  "reachedMaxEntries args i \<Longrightarrow> i \<le> j \<Longrightarrow> reachedMaxEntries args j"
  by (auto simp: reachedMaxEntries_def split: option.splits)

lemma validateItems_None_item:
  assumes "fst (validateItems it args xs index None s) = None"
    and "i < length xs" and "\<not> reachedMaxEntries args (index + i)"
  shows "\<exists>p s'. fst (internalValidate it (xs ! i) (validatorOptions args) p s') = None"
  using assms
proof (induction xs arbitrary: index s i)
  case Nil
  then show ?case by simp
next
  case (Cons x xs)
  have nr: "\<not> reachedMaxEntries args index"
    using Cons.prems(3) reachedMaxEntries_mono[of args index "index + i"] by auto
  have r: "fst (syncItem it args x index s) = None"
  proof (rule ccontr)
    assume "fst (syncItem it args x index s) \<noteq> None"
    then obtain e where e: "fst (syncItem it args x index s) = Some e" by auto
    then have "fst (validateItems it args (x # xs) index None s) = Some e"
      using nr by (simp add: validateItems_Cons validateItems_error_kept)
    with Cons.prems(1) show False by simp
  qed
  show ?case
  proof (cases i)
    case 0
    then show ?thesis using r by (auto simp: syncItem_def)
  next
    case (Suc i')
    have "fst (validateItems it args xs (Suc index) None (snd (syncItem it args x index s))) = None"
      using Cons.prems(1) nr r by (simp add: validateItems_Cons)
    then have "\<exists>p s'. fst (internalValidate it (xs ! i') (validatorOptions args) p s') = None"
      using Cons.prems(2,3) Suc by (intro Cons.IH) auto
    then show ?thesis using Suc by simp
  qed
qed

lemma checkBounds_violation:
  assumes "\<not> withinBounds args len"
  shows "\<exists>e. checkBounds args len = (if shouldStopOnFirstError args then Inl e else Inr (Some e))"
proof (cases "len < minLengthOf args")
  case True
  then show ?thesis using checkBounds_tooShort[of len args] by blast
next
  case False
  then obtain m where "maxLength args = Some m" "m < len"
    using assms by (auto simp: withinBounds_def minLengthOf_def split: option.splits)
  then show ?thesis using False checkBounds_tooLong[of args len m] by auto
qed

lemma validateArray_None_bounds:
  assumes "fst (validateArray (JArr xs) args s) = None"
    and "needsDeepSerDes args \<or> validation (validatorOptions args) \<noteq> NoValidation"
  shows "withinBounds args (length xs)"
proof (rule ccontr)
  assume "\<not> withinBounds args (length xs)"
  then obtain e where
    "checkBounds args (length xs) = (if shouldStopOnFirstError args then Inl e else Inr (Some e))"
    using checkBounds_violation by blast
  then have "fst (validateArray (JArr xs) args s) = Some e"
    using assms(2) by (rule validateArray_bounds_error[rotated])
  with assms(1) show False by simp
qed

lemma validateArray_None_items:
  assumes "fst (validateArray (JArr xs) args s) = None"
    and "needsDeepSerDes args \<or> validation (validatorOptions args) \<noteq> NoValidation"
    and "items args = Some it"
  shows "fst (validateItems it args xs 0 None s) = None"
  using assms validateArray_None_bounds[OF assms(1,2)]
  by (simp add: validateArray_def checkBounds_within split: if_splits)

text \<open>
  The other direction, for the synchronous validator in the modes \<open>hard\<close> and \<open>soft\<close>: it
  accepts valid values only. (In mode \<open>none\<close> an array without deep serialization is
  accepted unseen.)
\<close>

lemma accepted_value_valid:
  "validation vo \<noteq> NoValidation \<Longrightarrow> fst (internalValidate (build S) v vo p s) = None \<Longrightarrow>
     valid_per (validation vo) S v"
proof (induction S arbitrary: v p s)
  case (LeafE c sd chk)
  then show ?case by (simp add: leafValidate_def split: option.splits)
next
  case (UpgradedE n old new d)
  then show ?case
    by (auto simp: upgradedValidate_eq split: if_splits)
next
  case (ArrayE its minL maxL maxE)
  let ?options = "\<lparr>items = map_option build its, minLength = minL, maxLength = maxL,
                    maxEntriesToValidate = maxE\<rparr>"
  let ?args = "arrayArgs ?options (deepOf ?options) p vo"
  have acc: "fst (validateArray v ?args s) = None"
    using ArrayE.prems(2) by (simp add: deepOf_def)
  then obtain xs where v: "v = JArr xs"
    by (cases v) (simp_all add: validateArray_def)
  have mode: "needsDeepSerDes ?args \<or> validation (validatorOptions ?args) \<noteq> NoValidation"
    using ArrayE.prems(1) by simp
  have w: "withinBounds ?options (length xs)"
    using validateArray_None_bounds[OF acc[unfolded v] mode] by simp
  show ?case
  proof (cases its)
    case None
    then show ?thesis using v w by (simp add: withinBounds_def)
  next
    case (Some it)
    have loop: "fst (validateItems (build it) ?args xs 0 None s) = None"
      using validateArray_None_items[OF acc[unfolded v] mode, of "build it"] Some by simp
    have "valid_per (validation vo) it x" if mem: "x \<in> set (entriesToValidate it maxE xs)" for x
    proof -
      have "\<exists>i. i < length xs \<and> x = xs ! i \<and> \<not> reachedMaxEntries ?args (0 + i)"
      proof (cases "usesCustomSerDes (build it) \<or> maxE = None")
        case True
        then have "x \<in> set xs" using mem by (auto simp: entriesToValidate_def split: if_splits)
        then obtain i where "i < length xs" "x = xs ! i" by (auto simp: in_set_conv_nth)
        then show ?thesis using True Some by (auto simp: reachedMaxEntries_def deepOf_def)
      next
        case False
        then obtain k where k: "maxE = Some k" by auto
        then have "x \<in> set (take k xs)" using mem False by (simp add: entriesToValidate_def)
        then obtain i where "i < length (take k xs)" "x = take k xs ! i"
          by (auto simp: in_set_conv_nth)
        then have "i < length xs" "x = xs ! i" "i < k" by auto
        then show ?thesis using k by (auto simp: reachedMaxEntries_def)
      qed
      then obtain i where i: "i < length xs" "x = xs ! i" "\<not> reachedMaxEntries ?args (0 + i)"
        by blast
      from validateItems_None_item[OF loop i(1,3)]
      obtain q s' where "fst (internalValidate (build it) (xs ! i) vo q s') = None" by auto
      then show ?thesis
        using ArrayE.IH[of it x q s'] ArrayE.prems(1) Some i(2) by simp
    qed
    then show ?thesis using v w Some by (simp add: withinBounds_def)
  qed
qed

text \<open>
  C3. For every schema built from leaves, arrays and upgraded schemas and every value
  that is valid for it, the synchronous validator and the asynchronous validator both
  report no error.
\<close>

theorem valid_value_accepted:
  "valid_per (validation vo) S v \<Longrightarrow>
     fst (internalValidate (build S) v vo p s) = None \<and>
     fst (internalValidateAsync (build S) v vo p s) = None"
proof (induction S arbitrary: v p s)
  case (LeafE c sd chk)
  then show ?case by (simp add: leafValidate_def)
next
  case (UpgradedE n old new d)
  then show ?case
    by (auto simp: upgradedValidate_eq upgradedValidateAsync_eq Let_def pickValidator_def)
next
  case (ArrayE its minL maxL maxE)
  from ArrayE.prems obtain xs where v: "v = JArr xs" by (cases v) auto
  let ?options = "\<lparr>items = map_option build its, minLength = minL, maxLength = maxL,
                    maxEntriesToValidate = maxE\<rparr>"
  have w: "withinBounds ?options (length xs)"
    using ArrayE.prems v by (simp add: withinBounds_def)
  show ?case
  proof (cases its)
    case None
    let ?args = "arrayArgs ?options False p vo"
    have w': "withinBounds ?args (length xs)" using w by simp
    have "fst (validateArray (JArr xs) ?args s) = None"
      using None by (intro validateArray_accepts[OF w']) simp
    moreover have "fst (asyncValidateArray (JArr xs) ?args s) = None"
      using None by (intro asyncValidateArray_accepts[OF w']) simp
    ultimately show ?thesis using v None by simp
  next
    case (Some it)
    let ?args = "arrayArgs ?options (usesCustomSerDes (build it)) p vo"
    have w': "withinBounds ?args (length xs)" using w by simp
    have valid: "\<forall>x \<in> set (entriesToValidate it maxE xs). valid_per (validation vo) it x"
      using ArrayE.prems v Some by simp
    have IH: "\<And>x p s. valid_per (validation vo) it x \<Longrightarrow>
        fst (internalValidate (build it) x vo p s) = None \<and>
        fst (internalValidateAsync (build it) x vo p s) = None"
      using ArrayE.IH Some by simp
    have ok: "\<And>i. i < length xs \<Longrightarrow> \<not> reachedMaxEntries ?args i \<Longrightarrow>
        valid_per (validation vo) it (xs ! i)"
      using entry_valid[OF valid] Some by simp
    have "fst (validateItems (build it) ?args xs 0 None s) = None"
      using ok IH by (intro validateItems_accepted) simp
    then have 1: "fst (validateArray (JArr xs) ?args s) = None"
      using Some by (intro validateArray_accepts[OF w']) simp
    have "fst (asyncChunks (build it) ?args (asyncTimeComplexityThreshold s) xs 0 None s) = None"
      using ok IH by (intro asyncChunks_accepted) (simp add: pickValidator_def)
    then have 2: "fst (asyncValidateArray (JArr xs) ?args s) = None"
      using Some by (intro asyncValidateArray_accepts[OF w']) simp
    show ?thesis
      using 1 2 v Some by simp
  qed
qed

theorem valid_value_accepted_witness:
  "fst (internalValidate (build userIdList) (JArr [JStr ''u1'', JNum 42]) hardOptions [] (fresh 250)) = None \<and>
   fst (internalValidateAsync (build userIdList) (JArr [JStr ''u1'', JNum 42]) hardOptions [] (fresh 250)) = None"
proof -
  have "valid_per (validation hardOptions) userIdList (JArr [JStr ''u1'', JNum 42])"
    by (simp add: userIdList_def userIdExpr_def entriesToValidate_def hardOptions_def
          stringCheck_def numberCheck_def)
  then show ?thesis by (rule valid_value_accepted)
qed

section \<open>Truncated checking\<close>

lemma arrayArgs_maxEntries:
  "arrayArgs (options\<lparr>maxEntriesToValidate := m\<rparr>) deep p vo =
   (arrayArgs options deep p vo)\<lparr>maxEntriesToValidate := m\<rparr>"
  by (simp add: arrayArgs_def)

text \<open>
  C6, as stated, fails twice. With \<open>minLength = 3\<close> and \<open>maxEntriesToValidate = 1\<close> the array
  \<open>["a", 5]\<close> has a valid first element and is rejected, as too short, on both paths in
  mode \<open>hard\<close>. And with \<open>maxEntriesToValidate\<close> unset the same array, whose second element
  is no string, is accepted on both paths in mode \<open>none\<close>.
\<close>

theorem truncated_checking_needs_bounds_and_mode:
  "fst (internalValidate stringSchema (JStr ''a'') hardOptions [Index 0] (fresh 250)) = None \<and>
   fst (internalValidate (array firstStringOnly) (JArr [JStr ''a'', JNum 5]) hardOptions [] (fresh 250)) =
     Some (TooShort 3 2 []) \<and>
   fst (internalValidateAsync (array firstStringOnly) (JArr [JStr ''a'', JNum 5]) hardOptions [] (fresh 250)) =
     Some (TooShort 3 2 []) \<and>
   fst (internalValidate stringSchema (JNum 5) noneOptions [Index 1] (fresh 250)) =
     Some (LeafError ''Expected string'' [Index 1]) \<and>
   fst (internalValidate (array plainStrings) (JArr [JStr ''a'', JNum 5]) noneOptions [] (fresh 250)) = None \<and>
   fst (internalValidateAsync (array plainStrings) (JArr [JStr ''a'', JNum 5]) noneOptions [] (fresh 250)) = None"
  by (simp add: plainStrings_def firstStringOnly_def eval_simps)

text \<open>
  C6, amended. Items without custom serialization, an array whose length is within the
  bounds and whose elements before index \<open>k\<close> are accepted: with
  \<open>maxEntriesToValidate = k\<close> the array validates, synchronously and asynchronously, in
  every mode, whatever stands at index \<open>k\<close> and beyond. With \<open>maxEntriesToValidate\<close>
  unset and a rejected element somewhere, the same array fails in the modes \<open>hard\<close> and
  \<open>soft\<close> (asynchronously unless threshold and item cost are both zero, where the chunk
  size is \<open>NaN\<close> and no element is looked at). In mode \<open>none\<close>, with
  \<open>maxEntriesToValidate\<close> unset, it is accepted on both paths without a look at its
  elements: the state, and so the history of validated items, is as before the call.
\<close>

theorem maxEntriesToValidate_truncates:
  assumes "items options = Some it" and "\<not> usesCustomSerDes it"
    and "withinBounds options (length xs)"
    and "\<forall>i < length xs. i < k \<longrightarrow> accepts it vo (xs ! i)"
  shows
    "fst (internalValidate (array (options\<lparr>maxEntriesToValidate := Some k\<rparr>)) (JArr xs) vo p s) = None \<and>
     fst (internalValidateAsync (array (options\<lparr>maxEntriesToValidate := Some k\<rparr>)) (JArr xs) vo p s) = None \<and>
     (validation vo \<noteq> NoValidation \<and> (\<exists>j < length xs. rejects it vo (xs ! j)) \<longrightarrow>
        fst (internalValidate (array (options\<lparr>maxEntriesToValidate := None\<rparr>)) (JArr xs) vo p s) \<noteq> None \<and>
        (0 < asyncTimeComplexityThreshold s \<or> 0 < estimatedValidationTimeComplexity it \<longrightarrow>
           fst (internalValidateAsync (array (options\<lparr>maxEntriesToValidate := None\<rparr>)) (JArr xs) vo p s)
             \<noteq> None)) \<and>
     (validation vo = NoValidation \<longrightarrow>
        internalValidate (array (options\<lparr>maxEntriesToValidate := None\<rparr>)) (JArr xs) vo p s = (None, s) \<and>
        internalValidateAsync (array (options\<lparr>maxEntriesToValidate := None\<rparr>)) (JArr xs) vo p s = (None, s))"
proof -
  let ?on = "options\<lparr>maxEntriesToValidate := Some k\<rparr>"
  let ?argsOn = "arrayArgs ?on False p vo"
  let ?off = "options\<lparr>maxEntriesToValidate := None\<rparr>"
  let ?args = "arrayArgs ?off False p vo"
  have won: "withinBounds ?argsOn (length xs)" using assms(3) by (simp add: withinBounds_def)
  have ok: "\<And>i. i < length xs \<Longrightarrow> \<not> reachedMaxEntries ?argsOn i \<Longrightarrow> accepts it vo (xs ! i)"
    using assms(4) by (simp add: reachedMaxEntries_def)
  have "fst (validateItems it ?argsOn xs 0 None s) = None"
    using ok by (intro validateItems_accepted) (simp add: accepts_def)
  then have "fst (validateArray (JArr xs) ?argsOn s) = None"
    using assms(1) by (intro validateArray_accepts[OF won]) simp
  then have c1: "fst (internalValidate (array ?on) (JArr xs) vo p s) = None"
    using assms(1,2) by simp
  have "fst (asyncChunks it ?argsOn (asyncTimeComplexityThreshold s) xs 0 None s) = None"
    using ok by (intro asyncChunks_accepted) (simp add: accepts_pick)
  then have "fst (asyncValidateArray (JArr xs) ?argsOn s) = None"
    using assms(1) by (intro asyncValidateArray_accepts[OF won]) simp
  then have c2: "fst (internalValidateAsync (array ?on) (JArr xs) vo p s) = None"
    using assms(1,2) by simp
  have nolimit: "\<forall>i. \<not> reachedMaxEntries ?args i" by (simp add: reachedMaxEntries_def)
  have w: "withinBounds ?args (length xs)" using assms(3) by (simp add: withinBounds_def)
  have cb: "checkBounds ?args (length xs) = Inr None" by (rule checkBounds_within[OF w])
  have c3: "fst (internalValidate (array ?off) (JArr xs) vo p s) \<noteq> None"
    if h: "validation vo \<noteq> NoValidation \<and> (\<exists>j < length xs. rejects it vo (xs ! j))"
  proof -
    from h obtain j where j: "j < length xs" "rejects it vo (xs ! j)" by auto
    have "fst (validateItems it ?args xs 0 None s) \<noteq> None"
      using j by (intro validateItems_rejected[OF nolimit, of j]) (simp_all add: rejects_def)
    then have "fst (validateArray (JArr xs) ?args s) \<noteq> None"
      using assms(1) h cb by (simp add: validateArray_def)
    then show ?thesis using assms(1,2) by simp
  qed
  have c4: "fst (internalValidateAsync (array ?off) (JArr xs) vo p s) \<noteq> None"
    if h: "validation vo \<noteq> NoValidation \<and> (\<exists>j < length xs. rejects it vo (xs ! j))"
      and pos: "0 < asyncTimeComplexityThreshold s \<or> 0 < estimatedValidationTimeComplexity it"
  proof -
    from h obtain j where j: "j < length xs" "rejects it vo (xs ! j)" by auto
    have nn: "chunkSize (asyncTimeComplexityThreshold s) (estimatedValidationTimeComplexity it) \<noteq> NaN"
      using pos by (auto simp: chunkSize_def)
    have "fst (asyncChunks it ?args (asyncTimeComplexityThreshold s) xs 0 None s) \<noteq> None"
      using j by (intro asyncChunks_rejected[OF nolimit _ nn, of j]) (simp_all add: rejects_pick)
    then have "fst (asyncValidateArray (JArr xs) ?args s) \<noteq> None"
      using assms(1) h cb by (simp add: asyncValidateArray_def)
    then show ?thesis using assms(1,2) by simp
  qed
  have c5: "internalValidate (array ?off) (JArr xs) vo p s = (None, s)"
    "internalValidateAsync (array ?off) (JArr xs) vo p s = (None, s)"
    if "validation vo = NoValidation"
    using that assms(1,2) by (simp_all add: validateArray_def asyncValidateArray_def)
  show ?thesis
    using c1 c2 c3 c4 c5 by blast
qed

lemma accepts_leaf: "chk (validation vo) v = None \<Longrightarrow> accepts (leaf c sd chk) vo v"
  by (simp add: accepts_def leafValidate_def)

lemma rejects_leaf: "chk (validation vo) v \<noteq> None \<Longrightarrow> rejects (leaf c sd chk) vo v"
  by (auto simp: rejects_def leafValidate_def split: option.splits)

text \<open>
  Strings without bounds and the array \<open>["a", 5]\<close>: with \<open>maxEntriesToValidate = 1\<close> it
  validates in mode \<open>hard\<close>; with \<open>maxEntriesToValidate\<close> unset it fails in mode \<open>hard\<close>,
  and in mode \<open>none\<close> it is accepted and the state is untouched.
\<close>

theorem maxEntriesToValidate_truncates_witness:
  "fst (internalValidate (array (plainStrings\<lparr>maxEntriesToValidate := Some 1\<rparr>))
          (JArr [JStr ''a'', JNum 5]) hardOptions [] (fresh 250)) = None \<and>
   fst (internalValidateAsync (array (plainStrings\<lparr>maxEntriesToValidate := Some 1\<rparr>))
          (JArr [JStr ''a'', JNum 5]) hardOptions [] (fresh 250)) = None \<and>
   fst (internalValidate (array (plainStrings\<lparr>maxEntriesToValidate := None\<rparr>))
          (JArr [JStr ''a'', JNum 5]) hardOptions [] (fresh 250)) \<noteq> None \<and>
   fst (internalValidateAsync (array (plainStrings\<lparr>maxEntriesToValidate := None\<rparr>))
          (JArr [JStr ''a'', JNum 5]) hardOptions [] (fresh 250)) \<noteq> None \<and>
   internalValidate (array (plainStrings\<lparr>maxEntriesToValidate := None\<rparr>))
          (JArr [JStr ''a'', JNum 5]) noneOptions [] (fresh 250) = (None, fresh 250) \<and>
   internalValidateAsync (array (plainStrings\<lparr>maxEntriesToValidate := None\<rparr>))
          (JArr [JStr ''a'', JNum 5]) noneOptions [] (fresh 250) = (None, fresh 250)"
proof -
  have 1: "items plainStrings = Some stringSchema" by (simp add: plainStrings_def)
  have 2: "\<not> usesCustomSerDes stringSchema" by (simp add: stringSchema_def)
  have 3: "withinBounds plainStrings (length [JStr ''a'', JNum 5])"
    by (simp add: withinBounds_def plainStrings_def)
  have a: "accepts stringSchema vo (JStr ''a'')" for vo
    unfolding stringSchema_def by (rule accepts_leaf) (simp add: stringCheck_def)
  have r: "rejects stringSchema hardOptions (JNum 5)"
    unfolding stringSchema_def by (rule rejects_leaf) (simp add: stringCheck_def)
  have 4: "\<forall>i < length [JStr ''a'', JNum 5]. i < 1 \<longrightarrow>
             accepts stringSchema vo ([JStr ''a'', JNum 5] ! i)" for vo
    using a by simp
  have 5: "\<exists>j < length [JStr ''a'', JNum 5]. rejects stringSchema hardOptions ([JStr ''a'', JNum 5] ! j)"
    using r by (intro exI[where x=1]) simp
  have 6: "validation hardOptions \<noteq> NoValidation" "validation noneOptions = NoValidation"
    by (simp_all add: hardOptions_def noneOptions_def)
  show ?thesis
    using maxEntriesToValidate_truncates[OF 1 2 3 4, where vo=hardOptions and p="[]" and s="fresh 250"]
      maxEntriesToValidate_truncates[OF 1 2 3 4, where vo=noneOptions and p="[]" and s="fresh 250"]
      5 6
    by (simp add: fresh_def)
qed

declare chunks.simps [simp del]

section \<open>The asynchronous walk goes chunk by chunk\<close>

lemma chunkSlice_step:
  assumes "index < length xs" and "withinChunk chunk chunkStartIndex index"
  shows "chunkSlice chunk chunkStartIndex index xs =
         xs ! index # chunkSlice chunk chunkStartIndex (Suc index) xs"
proof (cases chunk)
  case (Finite k)
  then have "index < chunkStartIndex + k" using assms(2) by (simp add: withinChunk_def)
  then obtain m where m: "chunkStartIndex + k - index = Suc m" "chunkStartIndex + k - Suc index = m"
    by (cases "chunkStartIndex + k - index") auto
  show ?thesis
    using assms(1) Finite m by (simp add: chunkSlice_def Cons_nth_drop_Suc[symmetric])
next
  case Infinity
  then show ?thesis using assms(1) by (simp add: chunkSlice_def Cons_nth_drop_Suc)
next
  case NaN
  then show ?thesis using assms(2) by (simp add: withinChunk_def)
qed

lemma chunkSlice_done:
  assumes "\<not> (index < length xs \<and> withinChunk chunk chunkStartIndex index)"
  shows "chunkSlice chunk chunkStartIndex index xs = []"
  using assms by (auto simp: chunkSlice_def withinChunk_def split: js_number.splits)

lemma chunkItems_walk:
  "chunkItems it args threshold xs chunkStartIndex index errorResult s =
   walkItems it args threshold
     (enumerate index
        (chunkSlice (chunkSize threshold (estimatedValidationTimeComplexity it)) chunkStartIndex index xs))
     errorResult s"
proof (induction "length xs - index" arbitrary: index errorResult s rule: less_induct)
  case less
  let ?c = "chunkSize threshold (estimatedValidationTimeComplexity it)"
  show ?case
  proof (cases "index < length xs \<and> withinChunk ?c chunkStartIndex index")
    case False
    then have "chunkItems it args threshold xs chunkStartIndex index errorResult s =
        (ChunkUndefined, errorResult, s)"
      by (subst chunkItems_unfold) auto
    then show ?thesis
      using False by (simp add: chunkSlice_done)
  next
    case True
    have IH: "\<And>e s'. chunkItems it args threshold xs chunkStartIndex (Suc index) e s' =
        walkItems it args threshold
          (enumerate (Suc index) (chunkSlice ?c chunkStartIndex (Suc index) xs)) e s'"
      using True by (intro less) auto
    show ?thesis
      using True
      by (subst chunkItems_unfold) (simp add: chunkSlice_step IH)
  qed
qed

lemma drop_enumerate: "drop k (enumerate n xs) = enumerate (n + k) (drop k xs)"
proof (induction k arbitrary: n xs)
  case 0
  show ?case by simp
next
  case (Suc k)
  show ?case by (cases xs) (simp_all add: Suc)
qed

lemma take_enumerate: "take k (enumerate n xs) = enumerate n (take k xs)"
proof (induction k arbitrary: n xs)
  case 0
  show ?case by simp
next
  case (Suc k)
  show ?case by (cases xs) (simp_all add: Suc)
qed

lemma enumerate_eq_Nil [simp]: "enumerate n xs = [] \<longleftrightarrow> xs = []"
  by (cases xs) simp_all

lemma asyncChunks_walk:
  "asyncChunks it args threshold xs chunkStartIndex errorResult s =
   walkChunks it args threshold
     (chunksOf (chunkSize threshold (estimatedValidationTimeComplexity it))
        (enumerate chunkStartIndex (drop chunkStartIndex xs)))
     errorResult s"
proof (induction "length xs - chunkStartIndex" arbitrary: chunkStartIndex errorResult s rule: less_induct)
  case less
  let ?c = "chunkSize threshold (estimatedValidationTimeComplexity it)"
  let ?ys = "enumerate chunkStartIndex (drop chunkStartIndex xs)"
  show ?case
  proof (cases "chunkStartIndex < length xs")
    case False
    then have "chunksOf ?c ?ys = []"
      by (simp add: chunksOf_def chunks.simps split: js_number.splits)
    then show ?thesis using False by (subst asyncChunks_unfold) simp
  next
    case True
    then have ne: "?ys \<noteq> []" by simp
    have pc: "\<And>e s'. processChunk it args threshold xs chunkStartIndex e s' =
        walkItems it args threshold
          (enumerate chunkStartIndex (chunkSlice ?c chunkStartIndex chunkStartIndex xs)) e
          (consultShouldYield (validatorOptions args) s')"
      by (simp add: processChunk_def chunkItems_walk)
    show ?thesis
    proof (cases ?c)
      case (Finite k)
      then have k: "0 < k" by (rule chunkSize_Finite_pos)
      have split: "chunksOf ?c ?ys =
          enumerate chunkStartIndex (chunkSlice ?c chunkStartIndex chunkStartIndex xs) #
          chunksOf ?c (enumerate (chunkStartIndex + k) (drop (chunkStartIndex + k) xs))"
        using ne k Finite
        by (simp add: chunksOf_def chunks.simps[of k ?ys] chunkSlice_def take_enumerate
              drop_enumerate ac_simps)
      have IH: "\<And>e s'. asyncChunks it args threshold xs (chunkStartIndex + k) e s' =
          walkChunks it args threshold
            (chunksOf ?c (enumerate (chunkStartIndex + k) (drop (chunkStartIndex + k) xs))) e s'"
        using True k by (intro less) auto
      show ?thesis
        using True Finite
        by (subst asyncChunks_unfold) (simp add: split[unfolded Finite] pc[unfolded Finite] IH[unfolded Finite])
    next
      case Infinity
      then show ?thesis
        using True ne
        by (subst asyncChunks_unfold)
           (simp add: pc[unfolded Infinity] chunksOf_def chunkSlice_def)
    next
      case NaN
      then show ?thesis
        using True ne
        by (subst asyncChunks_unfold)
           (simp add: pc[unfolded NaN] chunksOf_def chunkSlice_def)
    qed
  qed
qed

lemma chunks_Nil [simp]: "chunks k [] = []"
  by (simp add: chunks.simps)

lemma chunks_step: "0 < k \<Longrightarrow> xs \<noteq> [] \<Longrightarrow> chunks k xs = take k xs # chunks k (drop k xs)"
  by (subst chunks.simps) simp

lemma concat_chunks: "0 < k \<Longrightarrow> concat (chunks k xs) = xs"
proof (induction "length xs" arbitrary: xs rule: less_induct)
  case less
  show ?case
  proof (cases "xs = []")
    case True
    then show ?thesis by simp
  next
    case False
    then have "concat (chunks k (drop k xs)) = drop k xs"
      using less.prems by (intro less) auto
    then show ?thesis using False less.prems by (simp add: chunks_step)
  qed
qed

lemma chunks_nth:
  "0 < k \<Longrightarrow> i < length (chunks k xs) \<Longrightarrow> chunks k xs ! i = take k (drop (i * k) xs)"
proof (induction i arbitrary: xs)
  case 0
  then have "xs \<noteq> []" by (cases xs) auto
  then show ?case using 0 by (simp add: chunks_step)
next
  case (Suc i)
  then have ne: "xs \<noteq> []" by (cases xs) auto
  then have "chunks k xs ! Suc i = chunks k (drop k xs) ! i"
    using Suc.prems by (simp add: chunks_step)
  also have "\<dots> = take k (drop (i * k) (drop k xs))"
    using Suc.prems ne by (intro Suc.IH) (simp_all add: chunks_step)
  finally show ?case by (simp add: ac_simps)
qed

lemma length_chunks: "0 < k \<Longrightarrow> length (chunks k xs) = (length xs + k - 1) div k"
proof (induction "length xs" arbitrary: xs rule: less_induct)
  case less
  show ?case
  proof (cases "xs = []")
    case True
    then show ?thesis using less.prems by simp
  next
    case False
    then have len: "0 < length xs" by simp
    have IH: "length (chunks k (drop k xs)) = (length (drop k xs) + k - 1) div k"
      using False less.prems by (intro less) auto
    show ?thesis
    proof (cases "length xs \<le> k")
      case True
      have "k \<le> length xs + k - 1" and "length xs + k - 1 < k + k"
        using len True by linarith+
      then have "k * 1 \<le> length xs + k - 1" and "length xs + k - 1 < k * Suc 1"
        by simp_all
      then have "(length xs + k - 1) div k = 1"
        by (rule div_nat_eqI)
      then show ?thesis using False less.prems True IH by (simp add: chunks_step)
    next
      case False2: False
      have a: "length xs + k - 1 = (length xs - 1) + k" using len by linarith
      have b: "length xs - k + k - 1 = length xs - 1" using False2 by linarith
      have IH': "length (chunks k (drop k xs)) = (length xs - 1) div k"
        using IH b by simp
      have "(length xs + k - 1) div k = Suc ((length xs - 1) div k)"
        unfolding a using less.prems div_add_self2[of k "length xs - 1"] by simp
      then show ?thesis using False less.prems IH' by (simp add: chunks_step)
    qed
  qed
qed

lemma asyncValidateArray_walk:
  assumes "items args = Some it"
    and "needsDeepSerDes args \<or> validation (validatorOptions args) \<noteq> NoValidation"
    and "withinBounds args (length xs)"
  shows "asyncValidateArray (JArr xs) args s =
         walkChunks it args (asyncTimeComplexityThreshold s)
           (chunksOf (chunkSize (asyncTimeComplexityThreshold s)
                        (estimatedValidationTimeComplexity it)) (enumerate 0 xs))
           None s"
  using assms(1,2) asyncChunks_walk[of it args "asyncTimeComplexityThreshold s" xs 0 None s]
  by (auto simp: asyncValidateArray_def checkBounds_within[OF assms(3)])

text \<open>
  C7. The asynchronous item loop of an array is the walk over the chunks of its indexed
  elements: the elements are cut into consecutive chunks of
  \<open>max(1, floor(threshold / itemCost))\<close> elements; before each chunk \<open>shouldYield\<close> is
  consulted and, when it answers true, \<open>yield\<close> is awaited; within a chunk each element
  is handed to the item schema's asynchronous validator exactly when the item cost exceeds
  the threshold, and to its synchronous validator otherwise.
\<close>

theorem async_array_walks_chunks:
  "asyncChunks it args t xs 0 errorResult s =
     walkChunks it args t
       (chunksOf (chunkSize t (estimatedValidationTimeComplexity it)) (enumerate 0 xs))
       errorResult s \<and>
   (items args = Some it \<and>
    (needsDeepSerDes args \<or> validation (validatorOptions args) \<noteq> NoValidation) \<and>
    withinBounds args (length xs) \<longrightarrow>
      asyncValidateArray (JArr xs) args s =
        walkChunks it args (asyncTimeComplexityThreshold s)
          (chunksOf (chunkSize (asyncTimeComplexityThreshold s)
                       (estimatedValidationTimeComplexity it)) (enumerate 0 xs))
          None s) \<and>
   (0 < estimatedValidationTimeComplexity it \<longrightarrow>
      chunkSize t (estimatedValidationTimeComplexity it) =
        Finite (max 1 (t div estimatedValidationTimeComplexity it))) \<and>
   (0 < k \<longrightarrow>
      length (chunks k ys) = (length ys + k - 1) div k \<and>
      (\<forall>i < length (chunks k ys). chunks k ys ! i = take k (drop (i * k) ys))) \<and>
   trace (consultShouldYield vo s) =
     trace s @ (if shouldYield vo (trace s) then [ShouldYieldAsked True, Yielded]
                else [ShouldYieldAsked False]) \<and>
   asyncItem it args t x index s =
     (if t < estimatedValidationTimeComplexity it then internalValidateAsync it
      else internalValidate it)
       x (validatorOptions args) (appendPathIndex (path args) index)
       (addEvent (ItemValidated (t < estimatedValidationTimeComplexity it)
          (appendPathIndex (path args) index)) s)"
proof (intro conjI impI allI)
  show "asyncChunks it args t xs 0 errorResult s =
     walkChunks it args t
       (chunksOf (chunkSize t (estimatedValidationTimeComplexity it)) (enumerate 0 xs))
       errorResult s"
    using asyncChunks_walk[of it args t xs 0 errorResult s] by simp
  show "chunkSize t (estimatedValidationTimeComplexity it) =
        Finite (max 1 (t div estimatedValidationTimeComplexity it))"
    if "0 < estimatedValidationTimeComplexity it"
    using that by (simp add: chunkSize_def)
  show "length (chunks k ys) = (length ys + k - 1) div k" if "0 < k"
    using that by (rule length_chunks)
  show "chunks k ys ! i = take k (drop (i * k) ys)" if "0 < k" "i < length (chunks k ys)" for i
    using that by (rule chunks_nth)
  show "trace (consultShouldYield vo s) =
     trace s @ (if shouldYield vo (trace s) then [ShouldYieldAsked True, Yielded]
                else [ShouldYieldAsked False])"
    by (simp add: consultShouldYield_def addEvent_def Let_def)
  show "asyncItem it args t x index s =
     (if t < estimatedValidationTimeComplexity it then internalValidateAsync it
      else internalValidate it)
       x (validatorOptions args) (appendPathIndex (path args) index)
       (addEvent (ItemValidated (t < estimatedValidationTimeComplexity it)
          (appendPathIndex (path args) index)) s)"
    by (simp add: asyncItem_def pickValidator_def)
  show "asyncValidateArray (JArr xs) args s =
        walkChunks it args (asyncTimeComplexityThreshold s)
          (chunksOf (chunkSize (asyncTimeComplexityThreshold s)
                       (estimatedValidationTimeComplexity it)) (enumerate 0 xs))
          None s"
    if "items args = Some it \<and>
        (needsDeepSerDes args \<or> validation (validatorOptions args) \<noteq> NoValidation) \<and>
        withinBounds args (length xs)"
    using that asyncValidateArray_walk[of args it xs s] by blast
qed

theorem async_array_walks_chunks_witness:
  "asyncValidateArray (JArr threeStrings) (arrayArgs plainStrings False [] yieldFirst) (fresh 2) =
     (None,
      \<lparr>asyncTimeComplexityThreshold = 2, alreadyLogUpgradedWarnings = {},
       trace = [ShouldYieldAsked True, Yielded,
                ItemValidated False [Index 0], ItemValidated False [Index 1],
                ShouldYieldAsked False, ItemValidated False [Index 2]]\<rparr>) \<and>
   chunkSize 2 (estimatedValidationTimeComplexity stringSchema) = Finite 2 \<and>
   length (chunks 2 threeStrings) = 2 \<and>
   chunks 2 threeStrings ! 1 = [JStr ''c'']"
proof -
  have h: "items (arrayArgs plainStrings False [] yieldFirst) = Some stringSchema \<and>
      (needsDeepSerDes (arrayArgs plainStrings False [] yieldFirst) \<or>
       validation (validatorOptions (arrayArgs plainStrings False [] yieldFirst)) \<noteq> NoValidation) \<and>
      withinBounds (arrayArgs plainStrings False [] yieldFirst) (length threeStrings)"
    by (simp add: plainStrings_def yieldFirst_def withinBounds_def)
  have c: "0 < estimatedValidationTimeComplexity stringSchema" "0 < (2::nat)"
    by (simp_all add: stringSchema_def)
  have l: "length (chunks 2 threeStrings) = 2"
    by (simp add: threeStrings_def chunks_step)
  show ?thesis
    using async_array_walks_chunks[where it=stringSchema
        and args="arrayArgs plainStrings False [] yieldFirst" and xs=threeStrings
        and s="fresh 2" and t=2 and k=2 and ys=threeStrings] h c
    by (simp add: l)
       (simp add: threeStrings_def chunksOf_def chunks_step plainStrings_def yieldFirst_def
          eval_simps)
qed

section \<open>Stopping at the first error\<close>

text \<open>
  The synchronous loop does stop: under stop-on-first-error, when the element it is at is
  rejected, the result is that element's, whatever follows it.
\<close>

lemma validateItems_stops_at_error:
  assumes "shouldStopOnFirstError args" and "\<not> reachedMaxEntries args index"
    and "fst (syncItem it args x index s) \<noteq> None"
  shows "validateItems it args (x # rest) index None s = syncItem it args x index s"
  using assms by (simp add: validateItems_Cons)

text \<open>
  The asynchronous loop over the chunks does not: whatever \<open>processChunk\<close> returns short
  of \<open>false\<close>, the next chunk is processed.
\<close>

lemma asyncChunks_goes_on:
  assumes "chunkStartIndex < length xs"
    and "chunkSize threshold (estimatedValidationTimeComplexity it) = Finite k"
    and "processChunk it args threshold xs chunkStartIndex errorResult s = (ChunkError, e, s')"
  shows "asyncChunks it args threshold xs chunkStartIndex errorResult s =
         asyncChunks it args threshold xs (chunkStartIndex + k) e s'"
  using assms by (subst asyncChunks_unfold) simp

lemma array_cost:
  "estimatedValidationTimeComplexity (array options) =
     (case items options of None \<Rightarrow> 1 | Some it \<Rightarrow> estimatedValidationTimeComplexity it) *
     (case (if deepOf options then maxLength options else maxEntriesToValidate options) of
        None \<Rightarrow> ESTIMATED_AVG_ARRAY_LENGTH
      | Some n \<Rightarrow> n)"
  by (simp add: array_def deepOf_def Let_def)

text \<open>
  C1 does not hold on the asynchronous path. In mode \<open>hard\<close>, with a threshold of 1 and so
  chunks of one element, the first element of \<open>[1, "b"]\<close> is no string: \<open>processChunk\<close>
  returns the error, the loop over the chunks drops it (\<open>chunkRes;\<close>) and goes on, and
  the second element is validated too. The synchronous validator stops after the first
  element. Both return the first error. Likewise with a threshold of 250 and lists of
  strings as items (cost 100, chunks of two): after the error in \<open>[[1], ["a"], ["b"]]\<close> at
  index 0 the rest of the first chunk is skipped and the element at index 2 is validated.
\<close>

theorem async_array_goes_on_after_first_error:
  "internalValidateAsync (array plainStrings) (JArr [JNum 1, JStr ''b'']) hardOptions [] (fresh 1) =
     (Some (LeafError ''Expected string'' [Index 0]),
      \<lparr>asyncTimeComplexityThreshold = 1, alreadyLogUpgradedWarnings = {},
       trace = [ShouldYieldAsked False, ItemValidated False [Index 0],
                ShouldYieldAsked False, ItemValidated False [Index 1]]\<rparr>) \<and>
   internalValidate (array plainStrings) (JArr [JNum 1, JStr ''b'']) hardOptions [] (fresh 1) =
     (Some (LeafError ''Expected string'' [Index 0]),
      \<lparr>asyncTimeComplexityThreshold = 1, alreadyLogUpgradedWarnings = {},
       trace = [ItemValidated False [Index 0]]\<rparr>) \<and>
   internalValidateAsync (array stringLists)
     (JArr [JArr [JNum 1], JArr [JStr ''a''], JArr [JStr ''b'']]) hardOptions [] (fresh 250) =
     (Some (LeafError ''Expected string'' [Index 0, Index 0]),
      \<lparr>asyncTimeComplexityThreshold = 250, alreadyLogUpgradedWarnings = {},
       trace = [ShouldYieldAsked False,
                ItemValidated False [Index 0], ItemValidated False [Index 0, Index 0],
                ShouldYieldAsked False,
                ItemValidated False [Index 2], ItemValidated False [Index 2, Index 0]]\<rparr>) \<and>
   internalValidate (array stringLists)
     (JArr [JArr [JNum 1], JArr [JStr ''a''], JArr [JStr ''b'']]) hardOptions [] (fresh 250) =
     (Some (LeafError ''Expected string'' [Index 0, Index 0]),
      \<lparr>asyncTimeComplexityThreshold = 250, alreadyLogUpgradedWarnings = {},
       trace = [ItemValidated False [Index 0], ItemValidated False [Index 0, Index 0]]\<rparr>)"
proof -
  have small: "internalValidateAsync (array plainStrings) (JArr [JNum 1, JStr ''b'']) hardOptions []
        (fresh 1) =
     (Some (LeafError ''Expected string'' [Index 0]),
      \<lparr>asyncTimeComplexityThreshold = 1, alreadyLogUpgradedWarnings = {},
       trace = [ShouldYieldAsked False, ItemValidated False [Index 0],
                ShouldYieldAsked False, ItemValidated False [Index 1]]\<rparr>)"
    "internalValidate (array plainStrings) (JArr [JNum 1, JStr ''b'']) hardOptions [] (fresh 1) =
     (Some (LeafError ''Expected string'' [Index 0]),
      \<lparr>asyncTimeComplexityThreshold = 1, alreadyLogUpgradedWarnings = {},
       trace = [ItemValidated False [Index 0]]\<rparr>)"
    by (simp_all add: plainStrings_def eval_simps)
  have nested: "internalValidateAsync (array stringLists)
       (JArr [JArr [JNum 1], JArr [JStr ''a''], JArr [JStr ''b'']]) hardOptions [] (fresh 250) =
     (Some (LeafError ''Expected string'' [Index 0, Index 0]),
      \<lparr>asyncTimeComplexityThreshold = 250, alreadyLogUpgradedWarnings = {},
       trace = [ShouldYieldAsked False,
                ItemValidated False [Index 0], ItemValidated False [Index 0, Index 0],
                ShouldYieldAsked False,
                ItemValidated False [Index 2], ItemValidated False [Index 2, Index 0]]\<rparr>)"
    "internalValidate (array stringLists)
       (JArr [JArr [JNum 1], JArr [JStr ''a''], JArr [JStr ''b'']]) hardOptions [] (fresh 250) =
     (Some (LeafError ''Expected string'' [Index 0, Index 0]),
      \<lparr>asyncTimeComplexityThreshold = 250, alreadyLogUpgradedWarnings = {},
       trace = [ItemValidated False [Index 0], ItemValidated False [Index 0, Index 0]]\<rparr>)"
    by (simp_all add: stringLists_def plainStrings_def pickValidator_def array_cost deepOf_def
          ESTIMATED_AVG_ARRAY_LENGTH_def eval_simps)
  show ?thesis using small nested by blast
qed

end
